theory Spec2Isabelle
  imports
    Main
    "HOL-Library.Char_ord"
    "HOL-Library.List_Lexorder"
    "HOL-Library.Sublist"
    "HOL-Library.Multiset"
begin

section \<open>The example merger of \<^verbatim>\<open>scripts/ci/aladdin_parser.py\<close>\<close>

text \<open>
  The script reads hand-written help files line by line, finds the blocks
  \<^verbatim>\<open>helps['<command>'] = """ ... """\<close>, and appends to each block the generated
  examples whose sorted list of \<^verbatim>\<open>--flag\<close> tokens does not occur among the block's own
  examples.

  Python strings are modelled as \<^typ>\<open>string\<close>, one \<^typ>\<open>char\<close> per code point
  (code points below 256), and lists of lines or of buffer pieces as \<^typ>\<open>string list\<close>.
  Every exception the code can raise is a value of \<open>py_error\<close>; a function that can raise
  returns \<open>py_error + 'a\<close> with \<open>Inl\<close> for the exception.
\<close>

subsection \<open>Characters that Isabelle string literals cannot hold\<close>

abbreviation NL :: char where "NL \<equiv> CHR 0x0A"
abbreviation SQ :: char where "SQ \<equiv> CHR 0x27"
abbreviation DQ :: char where "DQ \<equiv> CHR 0x22"
abbreviation BS :: char where "BS \<equiv> CHR 0x5C"
abbreviation SPC :: char where "SPC \<equiv> CHR 0x20"

subsection \<open>Exceptions and records\<close>

text \<open>
  \<open>SubstringNotFound\<close> is the \<^verbatim>\<open>ValueError\<close> of \<^verbatim>\<open>str.index\<close>;
  \<open>NoClosingQuotation\<close> and \<open>NoEscapedCharacter\<close> are the two \<^verbatim>\<open>ValueError\<close>s of
  \<^verbatim>\<open>shlex\<close>; \<open>IndexError\<close> is a list index out of range; \<open>AttributeError\<close> is a method
  call on the \<^verbatim>\<open>None\<close> that a failed \<^verbatim>\<open>re.search\<close> returns; \<open>YAMLError\<close> stands for
  whatever the YAML loader raises.
\<close>

datatype py_error =
    SubstringNotFound
  | NoClosingQuotation
  | NoEscapedCharacter
  | IndexError
  | AttributeError
  | YAMLError

text \<open>
  An example is a dictionary with the keys \<^verbatim>\<open>name\<close> and \<^verbatim>\<open>text\<close> and an optional key
  \<^verbatim>\<open>crafted\<close>; the code only tests that key's presence (\<^verbatim>\<open>'crafted' in ex\<close>).
\<close>

record example =
  ex_name :: string
  ex_text :: string
  ex_crafted :: "bool option"

subsection \<open>Python string operations\<close>

text \<open>\<^verbatim>\<open>s.startswith(p)\<close>, \<^verbatim>\<open>s.endswith(p)\<close> and \<^verbatim>\<open>p in s\<close>.\<close>

definition startswith :: "string \<Rightarrow> string \<Rightarrow> bool" where
  "startswith s p = prefix p s"

definition endswith :: "string \<Rightarrow> string \<Rightarrow> bool" where
  "endswith s p = prefix (rev p) (rev s)"

fun str_find :: "string \<Rightarrow> string \<Rightarrow> nat option" where
  "str_find [] sub = (if sub = [] then Some 0 else None)"
| "str_find (c # cs) sub =
     (if prefix sub (c # cs) then Some 0 else map_option Suc (str_find cs sub))"

definition str_in :: "string \<Rightarrow> string \<Rightarrow> bool" where
  "str_in sub s = (str_find s sub \<noteq> None)"

text \<open>\<^verbatim>\<open>s.index(sub)\<close>: the lowest index at which \<open>sub\<close> occurs, or \<^verbatim>\<open>ValueError\<close>.\<close>

definition str_index :: "string \<Rightarrow> string \<Rightarrow> py_error + nat" where
  "str_index s sub = (case str_find s sub of None \<Rightarrow> Inl SubstringNotFound | Some i \<Rightarrow> Inr i)"

text \<open>
  \<^verbatim>\<open>s.strip()\<close> removes the characters for which \<^verbatim>\<open>str.isspace\<close> holds from both ends;
  below code point 256 these are 9 to 13, 28 to 32, 133 and 160.
\<close>

definition py_isspace :: "char \<Rightarrow> bool" where
  "py_isspace c = (c \<in> set [CHR 0x09, CHR 0x0A, CHR 0x0B, CHR 0x0C, CHR 0x0D,
     CHR 0x1C, CHR 0x1D, CHR 0x1E, CHR 0x1F, CHR 0x20, CHR 0x85, CHR 0xA0])"

definition str_strip :: "string \<Rightarrow> string" where
  "str_strip s = rev (dropWhile py_isspace (rev (dropWhile py_isspace s)))"

text \<open>\<^verbatim>\<open>s.replace('\\', '\\\\')\<close>: every backslash becomes two.\<close>

fun escape_backslashes :: "string \<Rightarrow> string" where
  "escape_backslashes [] = []"
| "escape_backslashes (c # cs) =
     (if c = BS then BS # BS # escape_backslashes cs else c # escape_backslashes cs)"

text \<open>
  \<^verbatim>\<open>s.split(' ')\<close>: the pieces between single spaces, empty pieces kept, so that
  \<^verbatim>\<open>''.split(' ') == ['']\<close>.
\<close>

fun split_space :: "string \<Rightarrow> string list" where
  "split_space [] = [[]]"
| "split_space (c # cs) =
     (case split_space cs of
        [] \<Rightarrow> [[]]
      | p # ps \<Rightarrow> if c = SPC then [] # p # ps else (c # p) # ps)"

subsection \<open>\<^verbatim>\<open>shlex.split\<close>\<close>

text \<open>
  \<^verbatim>\<open>shlex.split(s)\<close> of the Python standard library runs the \<^verbatim>\<open>shlex\<close> lexer in POSIX
  mode with \<^verbatim>\<open>whitespace_split = True\<close>, no comment characters and no punctuation
  characters. The lexer's \<^verbatim>\<open>read_token\<close> is a state machine over the characters; its
  states are \<^verbatim>\<open>' '\<close> (between tokens), \<^verbatim>\<open>'a'\<close> (in a word), a quote character (inside
  quotes) and the escape character (after a backslash). \<open>escapedstate\<close> is the state to
  return to after the escaped character, \<open>quoted\<close> records that the token had a quoted
  part (so that an empty quoted token is still a token), \<open>token\<close> is the token so far.
  The whitespace of the lexer is space, tab, carriage return and newline; the quotes are
  \<^verbatim>\<open>'\<close> and \<^verbatim>\<open>"\<close>; backslash escapes outside quotes and inside double quotes.
\<close>

datatype lex_state = InSpace | InWord | InQuote char | InEscape

definition shlex_whitespace :: "char \<Rightarrow> bool" where
  "shlex_whitespace c = (c \<in> set [CHR 0x20, CHR 0x09, CHR 0x0D, CHR 0x0A])"

definition shlex_quote :: "char \<Rightarrow> bool" where
  "shlex_quote c = (c = SQ \<or> c = DQ)"

fun emit_token :: "string \<Rightarrow> bool \<Rightarrow> string list" where
  "emit_token token quoted = (if token = [] \<and> \<not> quoted then [] else [token])"

fun read_token :: "lex_state \<Rightarrow> lex_state \<Rightarrow> bool \<Rightarrow> string \<Rightarrow> string \<Rightarrow> py_error + string list"
  where
  "read_token InSpace escapedstate quoted token [] = Inr (emit_token token quoted)"
| "read_token InWord escapedstate quoted token [] = Inr (emit_token token quoted)"
| "read_token (InQuote q) escapedstate quoted token [] = Inl NoClosingQuotation"
| "read_token InEscape escapedstate quoted token [] = Inl NoEscapedCharacter"
| "read_token InSpace escapedstate quoted token (c # cs) =
     (if shlex_whitespace c then
        (if token \<noteq> [] \<or> quoted then
           map_sum id ((#) token) (read_token InSpace InSpace False [] cs)
         else read_token InSpace escapedstate quoted token cs)
      else if c = BS then read_token InEscape InWord quoted token cs
      else if shlex_quote c then read_token (InQuote c) escapedstate quoted token cs
      else read_token InWord escapedstate quoted [c] cs)"
| "read_token InWord escapedstate quoted token (c # cs) =
     (if shlex_whitespace c then
        (if token \<noteq> [] \<or> quoted then
           map_sum id ((#) token) (read_token InSpace InSpace False [] cs)
         else read_token InSpace escapedstate quoted token cs)
      else if shlex_quote c then read_token (InQuote c) escapedstate quoted token cs
      else if c = BS then read_token InEscape InWord quoted token cs
      else read_token InWord escapedstate quoted (token @ [c]) cs)"
| "read_token (InQuote q) escapedstate quoted token (c # cs) =
     (if c = q then read_token InWord escapedstate True token cs
      else if c = BS \<and> q = DQ then read_token InEscape (InQuote q) True token cs
      else read_token (InQuote q) escapedstate True (token @ [c]) cs)"
| "read_token InEscape escapedstate quoted token (c # cs) =
     (case escapedstate of
        InQuote q \<Rightarrow>
          read_token escapedstate escapedstate quoted
            (if c \<noteq> BS \<and> c \<noteq> q then token @ [BS, c] else token @ [c]) cs
      | _ \<Rightarrow> read_token escapedstate escapedstate quoted (token @ [c]) cs)"

definition shlex_split :: "string \<Rightarrow> py_error + string list" where
  "shlex_split s = read_token InSpace InSpace False [] s"

subsection \<open>\<^verbatim>\<open>format_examples\<close>: grouping examples by their parameter names\<close>

text \<open>
  The body of the loop of \<^verbatim>\<open>format_examples\<close> up to the sort: the text from the first
  occurrence of \<open>cmd\<close> on is \<open>command_line\<close>, what follows \<open>cmd\<close> in it is split by
  \<^verbatim>\<open>shlex\<close>, the tokens that start with \<^verbatim>\<open>--\<close> are stripped and sorted.
\<close>

definition parameter_names :: "string \<Rightarrow> string \<Rightarrow> py_error + string list" where
  "parameter_names cmd txt =
     (case str_index txt cmd of
        Inl e \<Rightarrow> Inl e
      | Inr i \<Rightarrow>
          (let command_line = drop i txt in
           case str_index command_line cmd of
             Inl e \<Rightarrow> Inl e
           | Inr j \<Rightarrow>
               (case shlex_split (drop (j + length cmd) command_line) of
                  Inl e \<Rightarrow> Inl e
                | Inr parameter_section \<Rightarrow>
                    Inr (sort (map str_strip
                      (filter (\<lambda>p. startswith p ''--'') parameter_section))))))"

text \<open>
  \<^verbatim>\<open>defaultdict(list)\<close> keyed by the tuple of parameter names. A Python dictionary keeps
  its keys in the order of first insertion, and the merge iterates over it, so the
  dictionary is an association list in that order.
\<close>

type_synonym formatted = "(string list \<times> example list) list"

fun dict_append :: "formatted \<Rightarrow> string list \<Rightarrow> example \<Rightarrow> formatted" where
  "dict_append [] k v = [(k, [v])]"
| "dict_append ((k', vs) # d) k v =
     (if k' = k then (k', vs @ [v]) # d else (k', vs) # dict_append d k v)"

fun format_examples_loop :: "string \<Rightarrow> example list \<Rightarrow> formatted \<Rightarrow> py_error + formatted" where
  "format_examples_loop cmd [] formatted = Inr formatted"
| "format_examples_loop cmd (ex # examples) formatted =
     (case parameter_names cmd (ex_text ex) of
        Inl e \<Rightarrow> Inl e
      | Inr names \<Rightarrow> format_examples_loop cmd examples (dict_append formatted names ex))"

definition format_examples :: "string \<Rightarrow> example list \<Rightarrow> py_error + formatted" where
  "format_examples cmd examples = format_examples_loop cmd examples []"

subsection \<open>\<^verbatim>\<open>calculate_example_yaml_indent\<close>\<close>

text \<open>
  The \<^verbatim>\<open>for idx, s in enumerate(raw_cli_help)\<close> loop with its \<^verbatim>\<open>break\<close>: the first line
  that, stripped, starts with \<^verbatim>\<open>examples\<close>, and its index.
\<close>

abbreviation examples_line :: "string \<Rightarrow> bool" where
  "examples_line s \<equiv> startswith (str_strip s) ''examples''"

fun find_examples_key :: "string list \<Rightarrow> nat \<Rightarrow> (string \<times> nat) option" where
  "find_examples_key [] idx = None"
| "find_examples_key (s # ss) idx =
     (if examples_line s then Some (s, idx) else find_examples_key ss (Suc idx))"

text \<open>
  \<^verbatim>\<open>re.search(r'[^ ]', s).start()\<close>: the index of the first character that is not a
  space. When there is none, \<^verbatim>\<open>re.search\<close> returns \<^verbatim>\<open>None\<close> and \<^verbatim>\<open>.start()\<close> raises
  \<^verbatim>\<open>AttributeError\<close>.
\<close>

abbreviation only_spaces :: "string \<Rightarrow> bool" where
  "only_spaces s \<equiv> \<forall>c \<in> set s. c = SPC"

abbreviation leading_spaces :: "string \<Rightarrow> string" where
  "leading_spaces s \<equiv> takeWhile (\<lambda>c. c = SPC) s"

definition indent_width :: "string \<Rightarrow> py_error + nat" where
  "indent_width s =
     (if only_spaces s then Inl AttributeError else Inr (length (leading_spaces s)))"

definition calculate_example_yaml_indent :: "string list \<Rightarrow> py_error + (string \<times> string)" where
  "calculate_example_yaml_indent raw_cli_help =
     (case raw_cli_help of
        [] \<Rightarrow> Inl IndexError
      | first # _ \<Rightarrow>
          (case (case find_examples_key raw_cli_help 0 of None \<Rightarrow> (first, 0) | Some r \<Rightarrow> r) of
             (yaml_indent_key, yaml_indent_idx) \<Rightarrow>
               (case indent_width yaml_indent_key of
                  Inl e \<Rightarrow> Inl e
                | Inr w \<Rightarrow>
                    (let preceding_indent = take w yaml_indent_key in
                     if str_in ''examples'' yaml_indent_key then
                       (if yaml_indent_idx + 1 < length raw_cli_help then
                          (let next_key = raw_cli_help ! (yaml_indent_idx + 1) in
                           case indent_width next_key of
                             Inl e \<Rightarrow> Inl e
                           | Inr w' \<Rightarrow> Inr (preceding_indent, take w' next_key))
                        else Inl IndexError)
                     else Inr (preceding_indent, preceding_indent @ ''  '')))))"

subsection \<open>\<^verbatim>\<open>write_examples\<close>\<close>

text \<open>
  The templates of \<^verbatim>\<open>write_examples\<close> with their argument filled in. The code builds
  each template by concatenation with \<open>example_inner_indent\<close> and then calls
  \<^verbatim>\<open>.format\<close>; the indent comes from \<open>calculate_example_yaml_indent\<close> and is made of
  spaces, so the only replacement field is the \<^verbatim>\<open>{}\<close> of the template. \<open>opt_tpl\<close> starts
  with a space, two backslashes and a newline.
\<close>

definition two_space :: string where
  "two_space = ''  ''"

definition name_tpl :: "string \<Rightarrow> string \<Rightarrow> string" where
  "name_tpl example_inner_indent n = example_inner_indent @ ''- name: '' @ n @ [NL]"

definition text_tpl :: "string \<Rightarrow> string" where
  "text_tpl example_inner_indent = example_inner_indent @ two_space @ ''text: |'' @ [NL]"

definition crafted_tpl :: "string \<Rightarrow> string" where
  "crafted_tpl example_inner_indent = [NL] @ example_inner_indent @ two_space @ ''crafted: true''"

definition cmd_tpl :: "string \<Rightarrow> string \<Rightarrow> string" where
  "cmd_tpl example_inner_indent cmd =
     example_inner_indent @ two_space @ two_space @ two_space @ ''az '' @ cmd"

definition opt_tpl :: "string \<Rightarrow> string \<Rightarrow> string" where
  "opt_tpl example_inner_indent p =
     [SPC, BS, BS, NL] @ example_inner_indent @ two_space @ two_space @ two_space @ p"

definition val_tpl :: "string \<Rightarrow> string" where
  "val_tpl p = SPC # p"

text \<open>
  \<open>parameters\<close> of the loop body: backslashes doubled, then what follows the first
  occurrence of \<open>cmd\<close>, stripped.
\<close>

definition example_parameters :: "string \<Rightarrow> string \<Rightarrow> py_error + string" where
  "example_parameters cmd txt =
     (let parameters = escape_backslashes txt in
      case str_index parameters cmd of
        Inl e \<Rightarrow> Inl e
      | Inr i \<Rightarrow> Inr (str_strip (drop (i + length cmd) parameters)))"

text \<open>The pieces appended for the parameters: one piece, or one piece per token.\<close>

definition parameter_pieces :: "string \<Rightarrow> string \<Rightarrow> string list" where
  "parameter_pieces example_inner_indent parameters =
     (if length parameters + length example_inner_indent < 80 then [SPC # parameters]
      else map (\<lambda>p. if startswith p ''--'' then opt_tpl example_inner_indent p else val_tpl p)
             (split_space parameters))"

fun write_examples :: "string \<Rightarrow> example list \<Rightarrow> string list \<Rightarrow> string \<Rightarrow> py_error + string list"
  where
  "write_examples cmd [] buffer example_inner_indent = Inr buffer"
| "write_examples cmd (ex # examples) buffer example_inner_indent =
     (case example_parameters cmd (ex_text ex) of
        Inl e \<Rightarrow> Inl e
      | Inr parameters \<Rightarrow>
          write_examples cmd examples
            (buffer
              @ [name_tpl example_inner_indent (ex_name ex),
                 text_tpl example_inner_indent,
                 cmd_tpl example_inner_indent cmd]
              @ parameter_pieces example_inner_indent parameters
              @ (if ex_crafted ex \<noteq> None then [crafted_tpl example_inner_indent] else [])
              @ [[NL]])
            example_inner_indent)"

subsection \<open>\<^verbatim>\<open>merge_examples\<close>\<close>

text \<open>
  The loop over \<^verbatim>\<open>formatted_aladdin_examples.items()\<close>. \<open>fc\<close> and \<open>fa\<close> are the two
  dictionaries, \<open>items\<close> what is left to iterate over, \<open>written\<close> the flag
  \<^verbatim>\<open>yaml_example_key_written\<close>.
\<close>

fun merge_examples_loop ::
  "string \<Rightarrow> formatted \<Rightarrow> formatted \<Rightarrow> formatted \<Rightarrow> bool \<Rightarrow> string \<Rightarrow> string \<Rightarrow> string list
    \<Rightarrow> py_error + string list" where
  "merge_examples_loop cmd fc fa [] written preceding_indent example_inner_indent buffer =
     Inr buffer"
| "merge_examples_loop cmd fc fa ((parameter_seq, examples) # items) written preceding_indent
     example_inner_indent buffer =
     (if parameter_seq \<in> set (map fst fc) then
        merge_examples_loop cmd fc fa items written preceding_indent example_inner_indent buffer
      else
        (let key_now = (\<not> written \<and> fa \<noteq> [] \<and> fc = []);
             buffer1 = (if key_now then buffer @ [preceding_indent @ ''examples:'' @ [NL]]
                        else buffer);
             written1 = (if key_now then True else written)
         in case write_examples cmd examples buffer1 example_inner_indent of
              Inl e \<Rightarrow> Inl e
            | Inr buffer2 \<Rightarrow>
                merge_examples_loop cmd fc fa items written1 preceding_indent
                  example_inner_indent buffer2))"

text \<open>
  The YAML loader is a library outside the repository. It enters the model as the
  parameter \<open>yaml_examples\<close>: the value of
  \<^verbatim>\<open>next(yaml.load_all(''.join(raw_cli_help))).get('examples', None)\<close>, or the exception
  raised on the way. \<open>aladdin_examples\<close> is \<^verbatim>\<open>aladdin_help.get('examples')\<close>.
\<close>

definition merge_examples ::
  "(string list \<Rightarrow> py_error + example list option) \<Rightarrow> string \<Rightarrow> string list
    \<Rightarrow> example list option \<Rightarrow> string list \<Rightarrow> py_error + string list" where
  "merge_examples yaml_examples cmd raw_cli_help aladdin_examples buffer =
     (case yaml_examples raw_cli_help of
        Inl e \<Rightarrow> Inl e
      | Inr cli_examples \<Rightarrow>
          (case aladdin_examples of
             None \<Rightarrow> Inr buffer
           | Some aladdin \<Rightarrow>
               (case format_examples cmd (case cli_examples of None \<Rightarrow> [] | Some exs \<Rightarrow> exs) of
                  Inl e \<Rightarrow> Inl e
                | Inr fc \<Rightarrow>
                    (case format_examples cmd aladdin of
                       Inl e \<Rightarrow> Inl e
                     | Inr fa \<Rightarrow>
                         (case calculate_example_yaml_indent raw_cli_help of
                            Inl e \<Rightarrow> Inl e
                          | Inr (preceding_indent, example_inner_indent) \<Rightarrow>
                              merge_examples_loop cmd fc fa fa False preceding_indent
                                example_inner_indent buffer)))))"

subsection \<open>\<^verbatim>\<open>merge\<close>: the pass over a help file\<close>

text \<open>
  The text of a file is a string: the characters that Python's text mode hands to the
  program and takes back from it (the decoding and the translation of line ends that
  \<^verbatim>\<open>open\<close> performs are not modelled). \<open>file_lines\<close> gives the lines of the text as Python
  yields them when it iterates over the file: every line keeps its newline, and the last
  one has none when the text does not end with one.
\<close>

fun file_lines :: "string \<Rightarrow> string list" where
  "file_lines [] = []"
| "file_lines (c # cs) =
     (if c = NL then [NL] # file_lines cs
      else (case file_lines cs of [] \<Rightarrow> [[c]] | l # ls \<Rightarrow> (c # l) # ls))"

text \<open>
  The open file is the list of the lines that are still to be read; iterating the file and
  \<^verbatim>\<open>f.readline()\<close> both take the next line, and \<^verbatim>\<open>f.readline()\<close> returns the empty
  string at the end of the file.
\<close>

definition readline :: "string list \<Rightarrow> string \<times> string list" where
  "readline f = (case f of [] \<Rightarrow> ([], []) | l # ls \<Rightarrow> (l, ls))"

definition block_start :: string where
  "block_start = ''helps['' @ [SQ]"

definition block_close :: string where
  "block_close = [DQ, DQ, DQ, NL]"

abbreviation closing_line :: "string \<Rightarrow> bool" where
  "closing_line l \<equiv> endswith l block_close"

text \<open>
  \<^verbatim>\<open>re.search(r"helps\['(.*?)'\] = \"\"\"\n", line).groups()[0]\<close>: the leftmost place
  where \<^verbatim>\<open>helps['\<close> occurs and is followed, after the fewest possible characters other
  than newline, by \<^verbatim>\<open>'] = """\<close> and a newline; the group is what lies between.
\<close>

definition group_close :: string where
  "group_close = [SQ] @ ''] = '' @ [DQ, DQ, DQ, NL]"

fun lazy_group :: "string \<Rightarrow> string option" where
  "lazy_group [] = None"
| "lazy_group (c # cs) =
     (if prefix group_close (c # cs) then Some []
      else if c = NL then None
      else map_option ((#) c) (lazy_group cs))"

fun re_search_helps :: "string \<Rightarrow> string option" where
  "re_search_helps [] = None"
| "re_search_helps (c # cs) =
     (if prefix block_start (c # cs) then
        (case lazy_group (drop (length block_start) (c # cs)) of
           Some g \<Rightarrow> Some g
         | None \<Rightarrow> re_search_helps cs)
      else re_search_helps cs)"

text \<open>
  The inner \<^verbatim>\<open>while line.endswith('"""\n') is False\<close> loop. It returns the body read,
  the closing line and the rest of the file, and \<open>None\<close> when it runs forever.
\<close>

partial_function (option) read_body ::
  "string \<Rightarrow> string list \<Rightarrow> string list \<Rightarrow> (string list \<times> string \<times> string list) option" where
  "read_body line f raw_yaml_body =
     (if closing_line line then Some (raw_yaml_body, line, f)
      else read_body (fst (readline f)) (snd (readline f)) (raw_yaml_body @ [line]))"

declare read_body.simps [code]

text \<open>
  The \<^verbatim>\<open>for line in f\<close> loop. \<open>helps\<close> is \<^verbatim>\<open>aladdin_generated_helps\<close> with each value
  reduced to its \<^verbatim>\<open>.get('examples')\<close>. The result is the buffer that \<^verbatim>\<open>writelines\<close>
  writes to the file that replaces the original; on an exception nothing is written.
\<close>

partial_function (option) merge_loop ::
  "(string list \<Rightarrow> py_error + example list option) \<Rightarrow> (string \<rightharpoonup> example list option)
    \<Rightarrow> string list \<Rightarrow> string list \<Rightarrow> (py_error + string list) option" where
  "merge_loop yaml_examples helps f buffer =
     (case f of
        [] \<Rightarrow> Some (Inr buffer)
      | line # f1 \<Rightarrow>
          if \<not> startswith line block_start then
            merge_loop yaml_examples helps f1 (buffer @ [line])
          else
            (case re_search_helps line of
               None \<Rightarrow> Some (Inl AttributeError)
             | Some g \<Rightarrow>
                 Option.bind (read_body (fst (readline f1)) (snd (readline f1)) [])
                   (\<lambda>(raw_yaml_body, closing, f2).
                      case (case helps (str_strip g) of
                              None \<Rightarrow> Inr (buffer @ [line] @ raw_yaml_body)
                            | Some aladdin_examples \<Rightarrow>
                                merge_examples yaml_examples (str_strip g) raw_yaml_body
                                  aladdin_examples (buffer @ [line] @ raw_yaml_body)) of
                        Inl e \<Rightarrow> Some (Inl e)
                      | Inr buffer1 \<Rightarrow>
                          merge_loop yaml_examples helps f2 (buffer1 @ [closing]))))"

declare merge_loop.simps [code]

text \<open>
  \<open>merge\<close> on the text of the help file: the lines are read, the loop runs from the
  empty buffer, and \<^verbatim>\<open>writelines\<close> writes the pieces of the buffer one after the other
  into the file that replaces the original. The result is \<open>None\<close> when the pass does not
  end, and an exception leaves the file as it was.
\<close>

definition merge ::
  "(string list \<Rightarrow> py_error + example list option) \<Rightarrow> (string \<rightharpoonup> example list option)
    \<Rightarrow> string \<Rightarrow> (py_error + string) option" where
  "merge yaml_examples helps content =
     map_option (map_sum id concat) (merge_loop yaml_examples helps (file_lines content) [])"

subsection \<open>Notions used to state properties of the rendered text\<close>

text \<open>
  The text appended for the invocation of one example: the pieces from \<open>cmd_tpl\<close> on,
  concatenated as \<^verbatim>\<open>writelines\<close> writes them.
\<close>

definition invocation_text :: "string \<Rightarrow> string \<Rightarrow> string \<Rightarrow> string" where
  "invocation_text example_inner_indent cmd parameters =
     concat (cmd_tpl example_inner_indent cmd # parameter_pieces example_inner_indent parameters)"

text \<open>The lines of a text, without their newlines.\<close>

fun split_lines :: "string \<Rightarrow> string list" where
  "split_lines [] = [[]]"
| "split_lines (c # cs) =
     (case split_lines cs of
        [] \<Rightarrow> [[]]
      | l # ls \<Rightarrow> if c = NL then [] # l # ls else (c # l) # ls)"


text \<open>
  The tokens of a parameter string cut before every token that starts with \<^verbatim>\<open>--\<close>: the
  first group holds the tokens before the first flag, every later group starts with a
  flag and holds the tokens up to the next flag.
\<close>

fun split_at_flags :: "string list \<Rightarrow> string list list" where
  "split_at_flags [] = [[]]"
| "split_at_flags (p # ps) =
     (case split_at_flags ps of
        [] \<Rightarrow> [[p]]
      | g # gs \<Rightarrow> if startswith p ''--'' then [] # (p # g) # gs else (p # g) # gs)"


subsection \<open>Notions used to state properties of the pass over the file\<close>

text \<open>
  Every line that opens a block (it starts with \<^verbatim>\<open>helps['\<close> and the regular expression
  finds the command in it) is followed, later in the file, by a line that ends with
  \<^verbatim>\<open>"""\<close> and a newline.
\<close>

fun blocks_closed :: "string list \<Rightarrow> bool" where
  "blocks_closed [] = True"
| "blocks_closed (line # f) =
     ((startswith line block_start \<and> re_search_helps line \<noteq> None
         \<longrightarrow> (\<exists>x \<in> set f. closing_line x))
      \<and> blocks_closed f)"


section \<open>Facts about the string operations\<close>

lemma str_find_None_iff: "str_find s sub = None \<longleftrightarrow> \<not> sublist sub s"
  by (induction s) (auto simp: sublist_Cons_right)

lemma str_in_iff_sublist: "str_in sub s \<longleftrightarrow> sublist sub s"
  by (simp add: str_in_def str_find_None_iff)

lemma str_index_missing: "\<not> sublist sub s \<Longrightarrow> str_index s sub = Inl SubstringNotFound"
  using str_find_None_iff [of s sub] by (simp add: str_index_def)

lemma str_find_Some:
  "str_find s sub = Some i \<Longrightarrow> i \<le> length s \<and> prefix sub (drop i s)
     \<and> (\<forall>j < i. \<not> prefix sub (drop j s))"
proof (induction s arbitrary: i)
  case Nil
  then show ?case by (simp split: if_splits)
next
  case (Cons c cs)
  show ?case
  proof (cases "prefix sub (c # cs)")
    case True
    with Cons.prems show ?thesis by simp
  next
    case False
    with Cons.prems obtain i' where i': "str_find cs sub = Some i'" "i = Suc i'" by auto
    from Cons.IH [OF i'(1)] have ih: "i' \<le> length cs" "prefix sub (drop i' cs)"
      "\<forall>j < i'. \<not> prefix sub (drop j cs)" by auto
    have "\<not> prefix sub (drop j (c # cs))" if "j < i" for j
    proof (cases j)
      case 0
      with False show ?thesis by simp
    next
      case (Suc j')
      with that i'(2) ih(3) show ?thesis by simp
    qed
    with ih i'(2) show ?thesis by simp
  qed
qed

lemma str_find_prefix: "prefix sub s \<Longrightarrow> str_find s sub = Some 0"
  by (cases s) auto

lemma str_find_first:
  "i \<le> length s \<Longrightarrow> prefix sub (drop i s) \<Longrightarrow> \<forall>j < i. \<not> prefix sub (drop j s)
    \<Longrightarrow> str_find s sub = Some i"
proof (induction s arbitrary: i)
  case Nil
  then show ?case by simp
next
  case (Cons c cs)
  show ?case
  proof (cases i)
    case 0
    with Cons.prems show ?thesis by simp
  next
    case (Suc i')
    with Cons.prems(3) have n: "\<not> prefix sub (c # cs)" by force
    from Suc Cons.prems(3) have "\<forall>j < i'. \<not> prefix sub (drop j cs)" by force
    with Cons.IH [of i'] Cons.prems(1,2) Suc have "str_find cs sub = Some i'" by simp
    with n Suc show ?thesis by simp
  qed
qed


section \<open>Facts about the indent inference\<close>

lemma find_examples_key_None:
  "find_examples_key raw idx = None \<longleftrightarrow> (\<forall>s \<in> set raw. \<not> examples_line s)"
  by (induction raw arbitrary: idx) auto

lemma find_examples_key_first:
  "i < length raw \<Longrightarrow> examples_line (raw ! i) \<Longrightarrow> \<forall>j < i. \<not> examples_line (raw ! j)
    \<Longrightarrow> find_examples_key raw idx = Some (raw ! i, idx + i)"
proof (induction raw arbitrary: idx i)
  case Nil
  then show ?case by simp
next
  case (Cons a raw)
  show ?case
  proof (cases i)
    case 0
    with Cons.prems show ?thesis by simp
  next
    case (Suc i')
    with Cons.prems(3) have a: "\<not> examples_line a" by force
    from Suc Cons.prems(3) have "\<forall>j < i'. \<not> examples_line (raw ! j)"
      by force
    with Cons.IH [of i' "Suc idx"] Cons.prems(1,2) Suc
    have "find_examples_key raw (Suc idx) = Some (raw ! i', Suc idx + i')" by simp
    with a Suc show ?thesis by simp
  qed
qed

lemma sublist_str_strip: "sublist (str_strip s) s"
proof -
  have "sublist (dropWhile py_isspace (rev (dropWhile py_isspace s))) (rev (dropWhile py_isspace s))"
    by (rule sublist_dropWhile)
  then have "sublist (str_strip s) (dropWhile py_isspace s)"
    unfolding str_strip_def by (simp only: sublist_rev_left rev_rev_ident)
  moreover have "sublist (dropWhile py_isspace s) s"
    by (rule sublist_dropWhile)
  ultimately show ?thesis
    by (rule sublist_order.order_trans)
qed

lemma examples_line_contains:
  assumes "examples_line s"
  shows "sublist ''examples'' s"
proof -
  from assms have "sublist ''examples'' (str_strip s)"
    unfolding startswith_def by (rule prefix_imp_sublist)
  then show ?thesis
    using sublist_str_strip by (rule sublist_order.order_trans)
qed

lemma examples_line_not_blank:
  assumes "examples_line s"
  shows "\<not> only_spaces s"
proof -
  from examples_line_contains [OF assms] have "set ''examples'' \<subseteq> set s"
    by (rule set_mono_sublist)
  then have "CHR ''e'' \<in> set s" by simp
  then show ?thesis by force
qed

lemma indent_width_Inr: "\<not> only_spaces s \<Longrightarrow> indent_width s = Inr (length (leading_spaces s))"
  by (simp add: indent_width_def)

lemma indent_width_Inl: "only_spaces s \<Longrightarrow> indent_width s = Inl AttributeError"
  by (simp add: indent_width_def)

lemma take_indent: "take (length (takeWhile P s)) s = takeWhile P s"
  by (induction s) auto

text \<open>The outcome when the scan finds a line, by what follows that line.\<close>

lemma indent_key_found:
  assumes "i < length raw" and "examples_line (raw ! i)" and "\<forall>j < i. \<not> examples_line (raw ! j)"
  shows "calculate_example_yaml_indent raw =
     (if Suc i < length raw then
        (if only_spaces (raw ! Suc i) then Inl AttributeError
         else Inr (leading_spaces (raw ! i), leading_spaces (raw ! Suc i)))
      else Inl IndexError)"
proof -
  have key: "find_examples_key raw 0 = Some (raw ! i, i)"
    using find_examples_key_first [OF assms, of 0] by simp
  have w: "indent_width (raw ! i) = Inr (length (leading_spaces (raw ! i)))"
    by (rule indent_width_Inr [OF examples_line_not_blank [OF assms(2)]])
  have inn: "str_in ''examples'' (raw ! i)"
    by (simp add: str_in_iff_sublist examples_line_contains [OF assms(2)])
  from assms(1) have "raw \<noteq> []" by auto
  then have "calculate_example_yaml_indent raw =
     (if i + 1 < length raw then
        (case indent_width (raw ! (i + 1)) of
           Inl e \<Rightarrow> Inl e
         | Inr w' \<Rightarrow> Inr (take (length (leading_spaces (raw ! i))) (raw ! i),
                      take w' (raw ! (i + 1))))
      else Inl IndexError)"
    unfolding calculate_example_yaml_indent_def
    by (simp only: key w inn list.case_eq_if option.case prod.case sum.case Let_def if_True
        if_False)
  then show ?thesis
    by (simp add: take_indent indent_width_def)
qed

text \<open>The outcome when the scan finds no line, by what the first line holds.\<close>

lemma indent_key_not_found:
  assumes "raw \<noteq> []" and "\<forall>s \<in> set raw. \<not> examples_line s"
  shows "calculate_example_yaml_indent raw =
     (if only_spaces (hd raw) then Inl AttributeError
      else if sublist ''examples'' (hd raw) then
        (if 1 < length raw then
           (if only_spaces (raw ! 1) then Inl AttributeError
            else Inr (leading_spaces (hd raw), leading_spaces (raw ! 1)))
         else Inl IndexError)
      else Inr (leading_spaces (hd raw), leading_spaces (hd raw) @ ''  ''))"
proof -
  have key: "find_examples_key raw 0 = None"
    using assms(2) by (simp only: find_examples_key_None)
  from assms(1) have "calculate_example_yaml_indent raw =
     (case indent_width (hd raw) of
        Inl e \<Rightarrow> Inl e
      | Inr w \<Rightarrow>
          if str_in ''examples'' (hd raw) then
            (if 0 + 1 < length raw then
               (case indent_width (raw ! (0 + 1)) of
                  Inl e \<Rightarrow> Inl e
                | Inr w' \<Rightarrow> Inr (take w (hd raw), take w' (raw ! (0 + 1))))
             else Inl IndexError)
          else Inr (take w (hd raw), take w (hd raw) @ ''  ''))"
    unfolding calculate_example_yaml_indent_def
    by (simp only: key list.case_eq_if option.case prod.case Let_def if_False)
  then show ?thesis
    by (simp add: take_indent indent_width_def str_in_iff_sublist)
qed

section \<open>Facts about the rendering of an example\<close>

lemma write_examples_single:
  assumes "example_parameters cmd (ex_text ex) = Inr parameters"
  shows "write_examples cmd [ex] buffer example_inner_indent =
     Inr (buffer
       @ [name_tpl example_inner_indent (ex_name ex), text_tpl example_inner_indent,
          cmd_tpl example_inner_indent cmd]
       @ parameter_pieces example_inner_indent parameters
       @ (if ex_crafted ex \<noteq> None then [crafted_tpl example_inner_indent] else [])
       @ [[NL]])"
  using assms by simp

lemma split_space_nonempty: "split_space s \<noteq> []"
  by (induction s) (auto split: list.splits)

lemma val_tpl_eq: "val_tpl = (#) SPC"
  by (rule ext) (simp add: val_tpl_def)

lemma join_split_space: "concat (map val_tpl (split_space s)) = SPC # s"
  unfolding val_tpl_eq
proof (induction s)
  case Nil
  then show ?case by simp
next
  case (Cons c cs)
  obtain p ps where sp: "split_space cs = p # ps"
    using split_space_nonempty [of cs] by (cases "split_space cs") auto
  with Cons.IH have "p @ concat (map ((#) SPC) ps) = cs"
    by simp
  then show ?case
    using sp by auto
qed


section \<open>Facts about the grouping of examples\<close>

lemma map_fst_dict_append:
  "map fst (dict_append d k v) = (if k \<in> set (map fst d) then map fst d else map fst d @ [k])"
  by (induction d k v rule: dict_append.induct) auto

lemma set_dict_append:
  "(k', exs) \<in> set (dict_append d k v) \<Longrightarrow>
     (k', exs) \<in> set d \<or> (k' = k \<and> (exs = [v] \<or> (\<exists>old. exs = old @ [v] \<and> (k, old) \<in> set d)))"
  by (induction d k v rule: dict_append.induct) (auto split: if_splits)

lemma members_dict_append:
  "(\<Union>g \<in> set (dict_append d k v). set (snd g)) = insert v (\<Union>g \<in> set d. set (snd g))"
  by (induction d k v rule: dict_append.induct) auto

lemma format_examples_loop_grouped:
  assumes "format_examples_loop cmd examples d = Inr f"
    and "distinct (map fst d)"
    and "\<forall>k exs. (k, exs) \<in> set d \<longrightarrow>
           exs \<noteq> [] \<and> (\<forall>ex \<in> set exs. parameter_names cmd (ex_text ex) = Inr k)"
  shows "distinct (map fst f)
    \<and> (\<forall>k exs. (k, exs) \<in> set f \<longrightarrow>
           exs \<noteq> [] \<and> (\<forall>ex \<in> set exs. parameter_names cmd (ex_text ex) = Inr k))
    \<and> (\<Union>g \<in> set f. set (snd g)) = set examples \<union> (\<Union>g \<in> set d. set (snd g))"
  using assms
proof (induction examples arbitrary: d)
  case Nil
  then show ?case by simp
next
  case (Cons ex examples)
  from Cons.prems(1) obtain k where k: "parameter_names cmd (ex_text ex) = Inr k"
    and r: "format_examples_loop cmd examples (dict_append d k ex) = Inr f"
    by (auto split: sum.splits)
  have d: "distinct (map fst (dict_append d k ex))"
    using Cons.prems(2) by (simp add: map_fst_dict_append)
  have g: "\<forall>k' exs. (k', exs) \<in> set (dict_append d k ex) \<longrightarrow>
           exs \<noteq> [] \<and> (\<forall>x \<in> set exs. parameter_names cmd (ex_text x) = Inr k')"
  proof (intro allI impI)
    fix k' exs assume "(k', exs) \<in> set (dict_append d k ex)"
    from set_dict_append [OF this] consider "(k', exs) \<in> set d" | "k' = k" "exs = [ex]"
      | old where "k' = k" "exs = old @ [ex]" "(k, old) \<in> set d" by blast
    then show "exs \<noteq> [] \<and> (\<forall>x \<in> set exs. parameter_names cmd (ex_text x) = Inr k')"
    proof cases
      case 1
      with Cons.prems(3) show ?thesis by blast
    next
      case 2
      with k show ?thesis by simp
    next
      case 3
      from Cons.prems(3) 3(3) have "\<forall>x \<in> set old. parameter_names cmd (ex_text x) = Inr k"
        by blast
      with 3 k show ?thesis by simp
    qed
  qed
  from Cons.IH [OF r d g] show ?case
    unfolding members_dict_append by auto
qed

lemma format_examples_grouped:
  assumes "format_examples cmd examples = Inr f"
  shows "distinct (map fst f)
    \<and> (\<forall>k exs. (k, exs) \<in> set f \<longrightarrow>
           exs \<noteq> [] \<and> (\<forall>ex \<in> set exs. parameter_names cmd (ex_text ex) = Inr k))
    \<and> (\<Union>g \<in> set f. set (snd g)) = set examples"
  using format_examples_loop_grouped [OF assms [unfolded format_examples_def]] by simp

lemma format_examples_keys:
  assumes "format_examples cmd examples = Inr f"
  shows "k \<in> set (map fst f) \<longleftrightarrow> (\<exists>ex \<in> set examples. parameter_names cmd (ex_text ex) = Inr k)"
proof
  from format_examples_grouped [OF assms]
  have g: "\<forall>k exs. (k, exs) \<in> set f \<longrightarrow>
           exs \<noteq> [] \<and> (\<forall>ex \<in> set exs. parameter_names cmd (ex_text ex) = Inr k)"
    and s: "(\<Union>g \<in> set f. set (snd g)) = set examples" by simp_all
  {
    assume "k \<in> set (map fst f)"
    then obtain exs where ke: "(k, exs) \<in> set f" by auto
    with g have ne: "exs \<noteq> []" and all: "\<forall>ex \<in> set exs. parameter_names cmd (ex_text ex) = Inr k"
      by blast+
    from ne obtain ex where ex: "ex \<in> set exs" by (cases exs) auto
    with ke have "ex \<in> (\<Union>g \<in> set f. set (snd g))" by force
    with s have "ex \<in> set examples" by simp
    with all ex show "\<exists>ex \<in> set examples. parameter_names cmd (ex_text ex) = Inr k" by blast
  }
  {
    assume "\<exists>ex \<in> set examples. parameter_names cmd (ex_text ex) = Inr k"
    then obtain ex where ex: "ex \<in> set examples" "parameter_names cmd (ex_text ex) = Inr k"
      by blast
    with s have "ex \<in> (\<Union>g \<in> set f. set (snd g))" by simp
    then obtain k' exs where m: "(k', exs) \<in> set f" "ex \<in> set exs" by force
    with g have "parameter_names cmd (ex_text ex) = Inr k'" by blast
    with ex have "k' = k" by simp
    with m show "k \<in> set (map fst f)" by force
  }
qed



section \<open>Facts about the loop of merge_examples\<close>

lemma write_examples_append:
  "write_examples cmd (xs @ ys) buffer ind =
     (case write_examples cmd xs buffer ind of
        Inl e \<Rightarrow> Inl e
      | Inr buffer1 \<Rightarrow> write_examples cmd ys buffer1 ind)"
  by (induction xs arbitrary: buffer) (auto split: sum.splits)


text \<open>The groups that the loop does not skip.\<close>

lemma merge_examples_loop_eq:
  "merge_examples_loop cmd fc fa items written pre inner buffer =
     write_examples cmd (concat (map snd (filter (\<lambda>g. fst g \<notin> set (map fst fc)) items)))
       (if filter (\<lambda>g. fst g \<notin> set (map fst fc)) items \<noteq> [] \<and> \<not> written \<and> fa \<noteq> [] \<and> fc = []
        then buffer @ [pre @ ''examples:'' @ [NL]] else buffer)
       inner"
proof (induction items arbitrary: written buffer)
  case Nil
  then show ?case by simp
next
  case (Cons g items)
  obtain k exs where g: "g = (k, exs)" by (cases g)
  show ?case
  proof (cases "k \<in> set (map fst fc)")
    case True
    then show ?thesis using Cons.IH [of written buffer] by (simp add: g)
  next
    case False
    let ?key_now = "\<not> written \<and> fa \<noteq> [] \<and> fc = []"
    let ?b1 = "if ?key_now then buffer @ [pre @ ''examples:'' @ [NL]] else buffer"
    let ?w1 = "if ?key_now then True else written"
    show ?thesis
    proof (cases "write_examples cmd exs ?b1 inner")
      case (Inl e)
      with False show ?thesis
        by (simp add: g write_examples_append Let_def)
    next
      case (Inr b2)
      have "\<not> (\<not> ?w1 \<and> fa \<noteq> [] \<and> fc = [])" by simp
      with Cons.IH [of ?w1 b2] have
        "merge_examples_loop cmd fc fa items ?w1 pre inner b2 =
           write_examples cmd (concat (map snd (filter (\<lambda>g. fst g \<notin> set (map fst fc)) items)))
             b2 inner"
        by presburger
      with False Inr show ?thesis
        by (simp add: g write_examples_append Let_def)
    qed
  qed
qed

lemma merge_examples_eq:
  assumes "yaml raw = Inr cli"
    and "format_examples cmd (case cli of None \<Rightarrow> [] | Some exs \<Rightarrow> exs) = Inr fc"
    and "format_examples cmd aladdin = Inr fa"
    and "calculate_example_yaml_indent raw = Inr (pre, inner)"
  shows "merge_examples yaml cmd raw (Some aladdin) buffer =
     write_examples cmd (concat (map snd (filter (\<lambda>g. fst g \<notin> set (map fst fc)) fa)))
       (if filter (\<lambda>g. fst g \<notin> set (map fst fc)) fa \<noteq> [] \<and> fc = []
        then buffer @ [pre @ ''examples:'' @ [NL]] else buffer)
       inner"
proof -
  have "filter (\<lambda>g. fst g \<notin> set (map fst fc)) fa \<noteq> [] \<Longrightarrow> fa \<noteq> []" by auto
  then show ?thesis
    using assms by (auto simp add: merge_examples_def merge_examples_loop_eq)
qed

section \<open>Facts about the pass over the file\<close>


lemma empty_line_not_closing: "\<not> closing_line []"
  by (simp add: endswith_def block_close_def)

lemma read_body_closes:
  assumes "\<forall>x \<in> set pre. \<not> closing_line x" and "closing_line c"
  shows "read_body (fst (readline (pre @ c # rest))) (snd (readline (pre @ c # rest))) body
     = Some (body @ pre, c, rest)"
  using assms
proof (induction pre arbitrary: body)
  case Nil
  then show ?case by (simp add: readline_def read_body.simps)
next
  case (Cons x pre)
  from Cons.prems have x: "\<not> closing_line x" by simp
  from Cons.prems have "read_body (fst (readline (pre @ c # rest))) (snd (readline (pre @ c # rest)))
      (body @ [x]) = Some ((body @ [x]) @ pre, c, rest)"
    by (intro Cons.IH) auto
  with x show ?case
    by (subst read_body.simps) (simp add: readline_def)
qed

lemma read_body_Some_closing:
  assumes "read_body line f body = Some r"
  shows "closing_line line \<or> (\<exists>x \<in> set f. closing_line x)"
proof (rule read_body.raw_induct
    [where P = "\<lambda>line f body r. closing_line line \<or> (\<exists>x \<in> set f. closing_line x)", OF _ assms])
  fix rb :: "string \<Rightarrow> string list \<Rightarrow> string list \<Rightarrow> (string list \<times> string \<times> string list) option"
  fix line f body r
  assume ih: "\<And>line f body r. rb line f body = Some r
      \<Longrightarrow> closing_line line \<or> (\<exists>x \<in> set f. closing_line x)"
  assume step: "(if closing_line line then Some (body, line, f)
      else rb (fst (readline f)) (snd (readline f)) (body @ [line])) = Some r"
  show "closing_line line \<or> (\<exists>x \<in> set f. closing_line x)"
  proof (cases "closing_line line")
    case True
    then show ?thesis by simp
  next
    case False
    with step have "rb (fst (readline f)) (snd (readline f)) (body @ [line]) = Some r"
      by simp
    from ih [OF this] show ?thesis
      using empty_line_not_closing
      by (cases f) (auto simp: readline_def)
  qed
qed

lemma read_body_never_closes:
  assumes "\<not> closing_line line" and "\<forall>x \<in> set f. \<not> closing_line x"
  shows "read_body line f body = None"
proof (rule ccontr)
  assume "read_body line f body \<noteq> None"
  then obtain r where "read_body line f body = Some r" by auto
  from read_body_Some_closing [OF this] assms show False by blast
qed

lemma merge_loop_Nil: "merge_loop yaml helps [] buffer = Some (Inr buffer)"
  by (subst merge_loop.simps) simp

lemma merge_loop_plain:
  "\<not> startswith line block_start
    \<Longrightarrow> merge_loop yaml helps (line # f1) buffer = merge_loop yaml helps f1 (buffer @ [line])"
  by (subst merge_loop.simps) simp

lemma merge_loop_no_match:
  "startswith line block_start \<Longrightarrow> re_search_helps line = None
    \<Longrightarrow> merge_loop yaml helps (line # f1) buffer = Some (Inl AttributeError)"
  by (subst merge_loop.simps) simp

lemma merge_loop_unclosed:
  assumes "startswith line block_start" and "re_search_helps line = Some g"
    and "\<forall>x \<in> set f1. \<not> closing_line x"
  shows "merge_loop yaml helps (line # f1) buffer = None"
proof -
  have "read_body (fst (readline f1)) (snd (readline f1)) [] = None"
    using assms(3) empty_line_not_closing
    by (intro read_body_never_closes) (cases f1; auto simp: readline_def)+
  with assms(1,2) show ?thesis
    by (subst merge_loop.simps) simp
qed

lemma merge_loop_block:
  assumes "startswith line block_start" and "re_search_helps line = Some g"
    and "\<forall>x \<in> set pre. \<not> closing_line x" and "closing_line c"
  shows "merge_loop yaml helps (line # pre @ c # rest) buffer =
     (case (case helps (str_strip g) of
              None \<Rightarrow> Inr (buffer @ [line] @ pre)
            | Some aladdin_examples \<Rightarrow>
                merge_examples yaml (str_strip g) pre aladdin_examples (buffer @ [line] @ pre)) of
        Inl e \<Rightarrow> Some (Inl e)
      | Inr buffer1 \<Rightarrow> merge_loop yaml helps rest (buffer1 @ [c]))"
  using assms(1,2)
  by (subst merge_loop.simps) (simp add: read_body_closes [OF assms(3,4)])

lemma merge_loop_terminates:
  assumes "\<forall>pre line rest. f = pre @ line # rest \<and> startswith line block_start
      \<and> re_search_helps line \<noteq> None \<longrightarrow> (\<exists>x \<in> set rest. closing_line x)"
  shows "\<exists>r. merge_loop yaml helps f buffer = Some r"
  using assms
proof (induction f arbitrary: buffer rule: length_induct)
  case (1 f)
  show ?case
  proof (cases f)
    case Nil
    then show ?thesis by (simp add: merge_loop_Nil)
  next
    case (Cons line f1)
    have tail: "\<forall>pre l rest. f' = pre @ l # rest \<and> startswith l block_start
        \<and> re_search_helps l \<noteq> None \<longrightarrow> (\<exists>x \<in> set rest. closing_line x)"
      if "f = p @ f'" for p f'
    proof (intro allI impI)
      fix pre l rest
      assume a: "f' = pre @ l # rest \<and> startswith l block_start \<and> re_search_helps l \<noteq> None"
      with that have "f = (p @ pre) @ l # rest" by simp
      with 1(2) a show "\<exists>x \<in> set rest. closing_line x" by blast
    qed
    show ?thesis
    proof (cases "startswith line block_start")
      case False
      have "\<exists>r. merge_loop yaml helps f1 (buffer @ [line]) = Some r"
        using 1(1) Cons tail [of "[line]" f1] by simp
      with False Cons show ?thesis by (simp add: merge_loop_plain)
    next
      case True
      show ?thesis
      proof (cases "re_search_helps line")
        case None
        with True Cons show ?thesis by (simp add: merge_loop_no_match)
      next
        case (Some g)
        with 1(2) [rule_format, of "[]" line f1] True Cons
        have "\<exists>x \<in> set f1. closing_line x" by simp
        from split_list_first_prop [OF this]
        obtain body c rest where f1: "f1 = body @ c # rest" and c: "closing_line c"
          and body: "\<forall>x \<in> set body. \<not> closing_line x" by blast
        let ?block = "case helps (str_strip g) of
              None \<Rightarrow> Inr (buffer @ [line] @ body)
            | Some aladdin_examples \<Rightarrow>
                merge_examples yaml (str_strip g) body aladdin_examples (buffer @ [line] @ body)"
        have eq: "merge_loop yaml helps f buffer =
            (case ?block of Inl e \<Rightarrow> Some (Inl e)
             | Inr buffer1 \<Rightarrow> merge_loop yaml helps rest (buffer1 @ [c]))"
          unfolding Cons f1 by (rule merge_loop_block [OF True Some body c])
        show ?thesis
        proof (cases ?block)
          case (Inl e)
          with eq show ?thesis by simp
        next
          case (Inr buffer1)
          have "f = (line # body @ [c]) @ rest" by (simp add: Cons f1)
          from tail [OF this] 1(1) Cons f1
          have "\<exists>r. merge_loop yaml helps rest (buffer1 @ [c]) = Some r" by simp
          with eq Inr show ?thesis by simp
        qed
      qed
    qed
  qed
qed

lemma merge_loop_append:
  assumes "merge_loop yaml helps pre buffer = Some (Inr b)"
  shows "merge_loop yaml helps (pre @ rest) buffer = merge_loop yaml helps rest b"
  using assms
proof (induction pre arbitrary: buffer rule: length_induct)
  case (1 pre)
  show ?case
  proof (cases pre)
    case Nil
    with 1(2) show ?thesis by (simp add: merge_loop_Nil)
  next
    case (Cons line f1)
    show ?thesis
    proof (cases "startswith line block_start")
      case False
      with 1(2) Cons have "merge_loop yaml helps f1 (buffer @ [line]) = Some (Inr b)"
        by (simp add: merge_loop_plain)
      with 1(1) Cons have "merge_loop yaml helps (f1 @ rest) (buffer @ [line])
          = merge_loop yaml helps rest b" by simp
      with False Cons show ?thesis by (simp add: merge_loop_plain)
    next
      case True
      show ?thesis
      proof (cases "re_search_helps line")
        case None
        with True Cons 1(2) show ?thesis by (simp add: merge_loop_no_match)
      next
        case (Some g)
        have "\<exists>x \<in> set f1. closing_line x"
        proof (rule ccontr)
          assume "\<not> (\<exists>x \<in> set f1. closing_line x)"
          then have "merge_loop yaml helps (line # f1) buffer = None"
            by (intro merge_loop_unclosed [OF True Some]) simp
          with 1(2) Cons show False by simp
        qed
        from split_list_first_prop [OF this]
        obtain body c tl where f1: "f1 = body @ c # tl" and c: "closing_line c"
          and body: "\<forall>x \<in> set body. \<not> closing_line x" by blast
        let ?block = "case helps (str_strip g) of
              None \<Rightarrow> Inr (buffer @ [line] @ body)
            | Some aladdin_examples \<Rightarrow>
                merge_examples yaml (str_strip g) body aladdin_examples (buffer @ [line] @ body)"
        have eq1: "merge_loop yaml helps pre buffer =
            (case ?block of Inl e \<Rightarrow> Some (Inl e)
             | Inr buffer1 \<Rightarrow> merge_loop yaml helps tl (buffer1 @ [c]))"
          unfolding Cons f1 by (rule merge_loop_block [OF True Some body c])
        have "pre @ rest = line # body @ c # (tl @ rest)" by (simp add: Cons f1)
        then have eq2: "merge_loop yaml helps (pre @ rest) buffer =
            (case ?block of Inl e \<Rightarrow> Some (Inl e)
             | Inr buffer1 \<Rightarrow> merge_loop yaml helps (tl @ rest) (buffer1 @ [c]))"
          by (simp only: merge_loop_block [OF True Some body c])
        show ?thesis
        proof (cases ?block)
          case (Inl e)
          with eq1 1(2) show ?thesis by simp
        next
          case (Inr buffer1)
          with eq1 1(2) have "merge_loop yaml helps tl (buffer1 @ [c]) = Some (Inr b)" by simp
          moreover have "length tl < length pre" by (simp add: Cons f1)
          ultimately have "merge_loop yaml helps (tl @ rest) (buffer1 @ [c])
              = merge_loop yaml helps rest b"
            using 1(1) by blast
          with eq2 Inr show ?thesis by simp
        qed
      qed
    qed
  qed
qed

lemma blocks_closed_iff:
  "blocks_closed f \<longleftrightarrow>
     (\<forall>pre line rest. f = pre @ line # rest \<and> startswith line block_start
        \<and> re_search_helps line \<noteq> None \<longrightarrow> (\<exists>x \<in> set rest. closing_line x))"
proof (induction f)
  case Nil
  then show ?case by simp
next
  case (Cons l f)
  note IH = Cons.IH
  show ?case
  proof
    assume a: "blocks_closed (l # f)"
    show "\<forall>pre line rest. l # f = pre @ line # rest \<and> startswith line block_start
        \<and> re_search_helps line \<noteq> None \<longrightarrow> (\<exists>x \<in> set rest. closing_line x)"
    proof (intro allI impI)
      fix pre line rest
      assume h: "l # f = pre @ line # rest \<and> startswith line block_start
        \<and> re_search_helps line \<noteq> None"
      show "\<exists>x \<in> set rest. closing_line x"
      proof (cases pre)
        case Nil
        with h a show ?thesis by simp
      next
        case (Cons p pre')
        with h have "f = pre' @ line # rest" by simp
        moreover from a have "blocks_closed f" by simp
        ultimately show ?thesis using h IH by blast
      qed
    qed
  next
    assume a: "\<forall>pre line rest. l # f = pre @ line # rest \<and> startswith line block_start
        \<and> re_search_helps line \<noteq> None \<longrightarrow> (\<exists>x \<in> set rest. closing_line x)"
    have "\<forall>pre line rest. f = pre @ line # rest \<and> startswith line block_start
        \<and> re_search_helps line \<noteq> None \<longrightarrow> (\<exists>x \<in> set rest. closing_line x)"
    proof (intro allI impI)
      fix pre line rest
      assume "f = pre @ line # rest \<and> startswith line block_start \<and> re_search_helps line \<noteq> None"
      then have "l # f = (l # pre) @ line # rest \<and> startswith line block_start
          \<and> re_search_helps line \<noteq> None" by simp
      with a show "\<exists>x \<in> set rest. closing_line x" by blast
    qed
    with IH have "blocks_closed f" by simp
    moreover from a [rule_format, of "[]" l f]
    have "startswith l block_start \<and> re_search_helps l \<noteq> None \<longrightarrow> (\<exists>x \<in> set f. closing_line x)"
      by simp
    ultimately show "blocks_closed (l # f)" by simp
  qed
qed

section \<open>The lines of the file are kept\<close>




section \<open>Running the merge again\<close>




section \<open>Generated examples with known parameter names are dropped\<close>

text \<open>
  Claim C2. Let \<open>fc\<close> and \<open>fa\<close> be the groups of the block's own examples and of the
  generated ones. What \<open>merge_examples\<close> appends is the rendering of the groups of \<open>fa\<close>
  whose parameter names are not a key of \<open>fc\<close>, in their order, after the
  \<^verbatim>\<open>examples:\<close> line when the block had no example. These groups have pairwise
  different parameter names, and all examples of a group have the parameter names of
  the group. A generated example whose parameter names are those of an example of the
  block is in none of them, so nothing is appended for it; every other generated
  example is in one of them.
\<close>

theorem merge_examples_drops_known_names:
  assumes "yaml raw = Inr cli"
    and "format_examples cmd (case cli of None \<Rightarrow> [] | Some exs \<Rightarrow> exs)
        = Inr fc"
    and "format_examples cmd aladdin = Inr fa"
    and "calculate_example_yaml_indent raw = Inr (pre, inner)"
  shows "\<exists>emitted. emitted = filter (\<lambda>g. fst g \<notin> set (map fst fc)) fa
     \<and> merge_examples yaml cmd raw (Some aladdin) buffer =
         write_examples cmd (concat (map snd emitted))
           (if emitted \<noteq> [] \<and> fc = [] then buffer @ [pre @ ''examples:''
               @ [NL]] else buffer)
           inner
     \<and> distinct (map fst emitted)
     \<and> (\<forall>g \<in> set emitted. \<forall>ex \<in> set (snd g).
           ex \<in> set aladdin \<and> parameter_names cmd (ex_text ex) = Inr (fst g))
     \<and> (\<forall>ex \<in> set aladdin.
           (\<exists>old \<in> set (case cli of None \<Rightarrow> [] | Some exs \<Rightarrow> exs).
               parameter_names cmd (ex_text ex) = parameter_names cmd (ex_text old))
           \<longrightarrow> ex \<notin> set (concat (map snd emitted)))
     \<and> (\<forall>ex \<in> set aladdin.
           (\<forall>old \<in> set (case cli of None \<Rightarrow> [] | Some exs \<Rightarrow> exs).
               parameter_names cmd (ex_text ex) \<noteq> parameter_names cmd (ex_text old))
           \<longrightarrow> ex \<in> set (concat (map snd emitted)))"
proof -
  let ?existing = "case cli of None \<Rightarrow> [] | Some exs \<Rightarrow> exs"
  let ?emitted = "filter (\<lambda>g. fst g \<notin> set (map fst fc)) fa"
  from format_examples_grouped [OF assms(3)]
  have da: "distinct (map fst fa)"
    and ga: "\<forall>k exs. (k, exs) \<in> set fa \<longrightarrow>
           exs \<noteq> [] \<and> (\<forall>ex \<in> set exs. parameter_names cmd (ex_text ex)
               = Inr k)"
    and sa: "(\<Union>g \<in> set fa. set (snd g)) = set aladdin" by simp_all
  note kc = format_examples_keys [OF assms(2)]
  have 1: "merge_examples yaml cmd raw (Some aladdin) buffer =
         write_examples cmd (concat (map snd ?emitted))
           (if ?emitted \<noteq> [] \<and> fc = [] then buffer @ [pre @ ''examples:''
               @ [NL]] else buffer)
           inner"
    using assms by (rule merge_examples_eq [where yaml = yaml and raw = raw])
  have 2: "distinct (map fst ?emitted)"
    using da by (rule distinct_map_filter)
  have 3: "ex \<in> set aladdin \<and> parameter_names cmd (ex_text ex) = Inr (fst g)"
    if "g \<in> set ?emitted" "ex \<in> set (snd g)" for g ex
  proof -
    from that have m: "(fst g, snd g) \<in> set fa" by simp
    with that(2) have "ex \<in> (\<Union>g \<in> set fa. set (snd g))" by force
    with sa have "ex \<in> set aladdin" by simp
    moreover from ga m that(2) have "parameter_names cmd (ex_text ex) = Inr (fst g)" by blast
    ultimately show ?thesis ..
  qed
  have 4: "ex \<notin> set (concat (map snd ?emitted))"
    if "ex \<in> set aladdin" "\<exists>old \<in> set ?existing.
         parameter_names cmd (ex_text ex) = parameter_names cmd (ex_text old)" for ex
  proof
    assume "ex \<in> set (concat (map snd ?emitted))"
    then obtain g where g: "g \<in> set ?emitted" "ex \<in> set (snd g)" by auto
    from 3 [OF g] have n: "parameter_names cmd (ex_text ex) = Inr (fst g)" by simp
    from that(2) obtain old where old: "old \<in> set ?existing"
      "parameter_names cmd (ex_text ex) = parameter_names cmd (ex_text old)" by blast
    with n have "\<exists>x \<in> set ?existing. parameter_names cmd (ex_text x)
        = Inr (fst g)" by auto
    with kc [of "fst g"] have "fst g \<in> set (map fst fc)" by simp
    with g(1) show False by simp
  qed
  have 5: "ex \<in> set (concat (map snd ?emitted))"
    if "ex \<in> set aladdin" "\<forall>old \<in> set ?existing.
         parameter_names cmd (ex_text ex) \<noteq> parameter_names cmd (ex_text old)" for ex
  proof -
    from that(1) sa have "ex \<in> (\<Union>g \<in> set fa. set (snd g))" by simp
    then obtain g where g: "g \<in> set fa" "ex \<in> set (snd g)" by auto
    then have "(fst g, snd g) \<in> set fa" by simp
    with ga g(2) have n: "parameter_names cmd (ex_text ex) = Inr (fst g)" by blast
    have "fst g \<notin> set (map fst fc)"
    proof
      assume "fst g \<in> set (map fst fc)"
      with kc [of "fst g"] obtain old where "old \<in> set ?existing"
        "parameter_names cmd (ex_text old) = Inr (fst g)" by auto
      with that(2) n show False by auto
    qed
    with g(1) have "g \<in> set ?emitted" by simp
    with g(2) show ?thesis by (simp only: set_concat set_map) blast
  qed
  from 1 2 3 4 5 show ?thesis by blast
qed

theorem merge_examples_drops_known_names_witness:
  "format_examples ''vm create''
      [\<lparr>ex_name = ''Create a VM'', ex_text = ''az vm create --name MyVm'', ex_crafted
          = None\<rparr>]
     = Inr [([''--name''],
        [\<lparr>ex_name = ''Create a VM'', ex_text = ''az vm create --name MyVm'', ex_crafted
            = None\<rparr>])]
   \<and> format_examples ''vm create''
      [\<lparr>ex_name = ''Create another VM'', ex_text = ''az vm create --name OtherVm'',
         ex_crafted = None\<rparr>,
       \<lparr>ex_name = ''Create a VM in a region'',
         ex_text = ''az vm create --name MyVm --location westus'', ex_crafted = None\<rparr>]
     = Inr [([''--name''],
        [\<lparr>ex_name = ''Create another VM'', ex_text = ''az vm create --name OtherVm'',
           ex_crafted = None\<rparr>]),
       ([''--location'', ''--name''],
        [\<lparr>ex_name = ''Create a VM in a region'',
           ex_text = ''az vm create --name MyVm --location westus'', ex_crafted = None\<rparr>])]
   \<and> calculate_example_yaml_indent
        [''type: command'' @ [NL], ''examples:'' @ [NL], ''  - name: Create a VM'' @ [NL],
         ''    text: az vm create --name MyVm'' @ [NL]]
     = Inr ('''', ''  '')
   \<and> merge_examples
        (\<lambda>raw. Inr (Some [\<lparr>ex_name = ''Create a VM'', ex_text
            = ''az vm create --name MyVm'',
           ex_crafted = None\<rparr>]))
        ''vm create''
        [''type: command'' @ [NL], ''examples:'' @ [NL], ''  - name: Create a VM'' @ [NL],
         ''    text: az vm create --name MyVm'' @ [NL]]
        (Some [\<lparr>ex_name = ''Create another VM'', ex_text = ''az vm create --name OtherVm'',
                 ex_crafted = None\<rparr>,
               \<lparr>ex_name = ''Create a VM in a region'',
                 ex_text = ''az vm create --name MyVm --location westus'', ex_crafted
                     = None\<rparr>])
        []
     = Inr [''  - name: Create a VM in a region'' @ [NL],
            ''    text: |'' @ [NL],
            ''        az vm create'',
            '' --name MyVm --location westus'',
            [NL]]"
proof -
  let ?a = "\<lparr>ex_name = ''Create a VM'', ex_text = ''az vm create --name MyVm'', ex_crafted
      = None\<rparr>"
  let ?b = "\<lparr>ex_name = ''Create another VM'', ex_text = ''az vm create --name OtherVm'',
         ex_crafted = None\<rparr>"
  let ?c = "\<lparr>ex_name = ''Create a VM in a region'',
         ex_text = ''az vm create --name MyVm --location westus'', ex_crafted = None\<rparr>"
  let ?raw = "[''type: command'' @ [NL], ''examples:'' @ [NL], ''  - name: Create a VM'' @ [NL],
         ''    text: az vm create --name MyVm'' @ [NL]]"
  let ?yaml = "\<lambda>raw :: string list. Inr (Some [?a]) :: py_error + example list option"
  have y: "?yaml ?raw = Inr (Some [?a])" by simp
  have fc: "format_examples ''vm create'' (case Some [?a] of None \<Rightarrow> [] | Some exs \<Rightarrow> exs)
      = Inr [([''--name''], [?a])]"
    by code_simp
  have fa: "format_examples ''vm create'' [?b, ?c]
      = Inr [([''--name''], [?b]), ([''--location'', ''--name''], [?c])]"
    by code_simp
  have ind: "calculate_example_yaml_indent ?raw = Inr ('''', ''  '')"
    by code_simp
  have w: "write_examples ''vm create'' [?c] [] ''  ''
     = Inr [''  - name: Create a VM in a region'' @ [NL],
            ''    text: |'' @ [NL],
            ''        az vm create'',
            '' --name MyVm --location westus'',
            [NL]]"
    by code_simp
  from merge_examples_drops_known_names [of ?yaml ?raw "Some [?a]" "''vm create''", OF y fc fa ind,
      of "[]"]
  have "merge_examples ?yaml ''vm create'' ?raw (Some [?b, ?c]) []
      = write_examples ''vm create'' [?c] [] ''  ''"
    by simp
  with w fc fa ind show ?thesis by simp
qed

section \<open>When an invocation is wrapped\<close>

text \<open>
  Claim C3, amended. The invocation stays on one line, the command followed by a space
  and the parameters, exactly when the length of the parameters (backslashes doubled,
  what follows the command, stripped) plus the length of the inner indent is below 80;
  the six further spaces of indentation,
      \<^verbatim>\<open>az\<close> and the command are not counted. From 80
  on, every token between single spaces that starts with \<^verbatim>\<open>--\<close> is put after the
  continuation marker (a space, two backslashes, a newline) and the indentation, and
  every other token after a space; when no token starts with \<^verbatim>\<open>--\<close> the text is the
  same as on one line.
\<close>

theorem write_examples_wrap_threshold:
  assumes "example_parameters cmd (ex_text ex) = Inr parameters"
  shows "write_examples cmd [ex] buffer example_inner_indent =
       Inr (buffer
         @ [name_tpl example_inner_indent (ex_name ex), text_tpl example_inner_indent,
            cmd_tpl example_inner_indent cmd]
         @ parameter_pieces example_inner_indent parameters
         @ (if ex_crafted ex \<noteq> None then [crafted_tpl example_inner_indent] else [])
         @ [[NL]])
     \<and> (length parameters + length example_inner_indent < 80
          \<longrightarrow> parameter_pieces example_inner_indent parameters = [SPC # parameters]
            \<and> invocation_text example_inner_indent cmd parameters
                = cmd_tpl example_inner_indent cmd @ SPC # parameters)
     \<and> (80 \<le> length parameters + length example_inner_indent
          \<longrightarrow> parameter_pieces example_inner_indent parameters
                = map (\<lambda>p. if startswith p ''--''
                            then [SPC, BS, BS, NL] @ example_inner_indent @ ''      '' @ p
                            else SPC # p)
                    (split_space parameters)
            \<and> ((\<forall>p \<in> set (split_space parameters). \<not> startswith p ''--'')
                 \<longrightarrow> invocation_text example_inner_indent cmd parameters
                       = cmd_tpl example_inner_indent cmd @ SPC # parameters))"
proof (intro conjI impI)
  show "write_examples cmd [ex] buffer example_inner_indent =
       Inr (buffer
         @ [name_tpl example_inner_indent (ex_name ex), text_tpl example_inner_indent,
            cmd_tpl example_inner_indent cmd]
         @ parameter_pieces example_inner_indent parameters
         @ (if ex_crafted ex \<noteq> None then [crafted_tpl example_inner_indent] else [])
         @ [[NL]])"
    by (rule write_examples_single [OF assms])
next
  assume "length parameters + length example_inner_indent < 80"
  then show "parameter_pieces example_inner_indent parameters = [SPC # parameters]"
    and "invocation_text example_inner_indent cmd parameters
                = cmd_tpl example_inner_indent cmd @ SPC # parameters"
    by (simp_all add: parameter_pieces_def invocation_text_def)
next
  assume "80 \<le> length parameters + length example_inner_indent"
  then show "parameter_pieces example_inner_indent parameters
                = map (\<lambda>p. if startswith p ''--''
                            then [SPC, BS, BS, NL] @ example_inner_indent @ ''      '' @ p
                            else SPC # p)
                    (split_space parameters)"
    by (simp add: parameter_pieces_def opt_tpl_def val_tpl_def two_space_def)
next
  assume a: "80 \<le> length parameters + length example_inner_indent"
    and b: "\<forall>p \<in> set (split_space parameters). \<not> startswith p ''--''"
  from b have "map (\<lambda>p. if startswith p ''--'' then opt_tpl example_inner_indent p else val_tpl p)
      (split_space parameters) = map val_tpl (split_space parameters)"
    by simp
  with a have "parameter_pieces example_inner_indent parameters
      = map val_tpl (split_space parameters)"
    by (simp add: parameter_pieces_def)
  then show "invocation_text example_inner_indent cmd parameters
                = cmd_tpl example_inner_indent cmd @ SPC # parameters"
    by (simp add: invocation_text_def join_split_space)
qed

theorem write_examples_wrap_threshold_witness:
  "example_parameters ''vm create''
       (ex_text \<lparr>ex_name = ''Create a VM'',
          ex_text = ''az vm create --name MyVm --resource-group MyResourceGroup'',
          ex_crafted = None\<rparr>)
     = Inr ''--name MyVm --resource-group MyResourceGroup''
   \<and> length ''--name MyVm --resource-group MyResourceGroup'' + length ''  '' < 80
   \<and> invocation_text ''  '' ''vm create'' ''--name MyVm --resource-group MyResourceGroup''
     = ''        az vm create --name MyVm --resource-group MyResourceGroup''
   \<and> example_parameters ''vm create''
       (ex_text \<lparr>ex_name = ''Create a VM'',
          ex_text = ''az vm create --name MyVm --resource-group MyResourceGroup --image UbuntuLTS --generate-ssh-keys'',
          ex_crafted = None\<rparr>)
     = Inr ''--name MyVm --resource-group MyResourceGroup --image UbuntuLTS --generate-ssh-keys''
   \<and> 80 \<le> length ''--name MyVm --resource-group MyResourceGroup --image UbuntuLTS --generate-ssh-keys''
         + length ''  ''
   \<and> parameter_pieces ''  ''
        ''--name MyVm --resource-group MyResourceGroup --image UbuntuLTS --generate-ssh-keys''
     = [[SPC, BS, BS, NL] @ ''        --name'', '' MyVm'',
        [SPC, BS, BS, NL] @ ''        --resource-group'', '' MyResourceGroup'',
        [SPC, BS, BS, NL] @ ''        --image'', '' UbuntuLTS'',
        [SPC, BS, BS, NL] @ ''        --generate-ssh-keys'']"
proof -
  let ?exA = "\<lparr>ex_name = ''Create a VM'',
          ex_text = ''az vm create --name MyVm --resource-group MyResourceGroup'',
          ex_crafted = None\<rparr>"
  let ?pA = "''--name MyVm --resource-group MyResourceGroup''"
  let ?exB = "\<lparr>ex_name = ''Create a VM'',
          ex_text = ''az vm create --name MyVm --resource-group MyResourceGroup --image UbuntuLTS --generate-ssh-keys'',
          ex_crafted = None\<rparr>"
  let ?pB = "''--name MyVm --resource-group MyResourceGroup --image UbuntuLTS --generate-ssh-keys''"
  have a: "example_parameters ''vm create'' (ex_text ?exA) = Inr ?pA" by code_simp
  have la: "length ?pA + length ''  '' < 80" by simp
  have b: "example_parameters ''vm create'' (ex_text ?exB) = Inr ?pB" by code_simp
  have lb: "80 \<le> length ?pB + length ''  ''" by simp
  have sb: "split_space ?pB = [''--name'', ''MyVm'', ''--resource-group'', ''MyResourceGroup'',
      ''--image'', ''UbuntuLTS'', ''--generate-ssh-keys'']" by code_simp
  from write_examples_wrap_threshold [OF a, of "[]" "''  ''"] la
  have ca: "invocation_text ''  '' ''vm create'' ?pA
     = ''        az vm create --name MyVm --resource-group MyResourceGroup''"
    by (simp add: cmd_tpl_def two_space_def)
  from write_examples_wrap_threshold [OF b, of "[]" "''  ''"] lb
  have cb: "parameter_pieces ''  '' ?pB
     = [[SPC, BS, BS, NL] @ ''        --name'', '' MyVm'',
        [SPC, BS, BS, NL] @ ''        --resource-group'', '' MyResourceGroup'',
        [SPC, BS, BS, NL] @ ''        --image'', '' UbuntuLTS'',
        [SPC, BS, BS, NL] @ ''        --generate-ssh-keys'']"
    by (simp add: sb startswith_def)
  from a la ca b lb cb show ?thesis by blast
qed

text \<open>
  Claim C3 as stated measures the rendered line. The line below is 83 columns long with
  its indentation and is not wrapped, because the code measures the 62 characters of the
  parameters plus the 2 of the inner indent.
\<close>

theorem long_line_not_wrapped:
  "example_parameters ''vm create''
       ''az vm create --name MyVm --resource-group MyResourceGroup --image UbuntuLTS''
     = Inr ''--name MyVm --resource-group MyResourceGroup --image UbuntuLTS''
   \<and> write_examples ''vm create''
       [\<lparr>ex_name = ''Create a VM'',
          ex_text = ''az vm create --name MyVm --resource-group MyResourceGroup --image UbuntuLTS'',
          ex_crafted = None\<rparr>] [] ''  ''
     = Inr [''  - name: Create a VM'' @ [NL],
            ''    text: |'' @ [NL],
            ''        az vm create'',
            '' --name MyVm --resource-group MyResourceGroup --image UbuntuLTS'',
            [NL]]
   \<and> split_lines (invocation_text ''  '' ''vm create''
         ''--name MyVm --resource-group MyResourceGroup --image UbuntuLTS'')
     = [''        az vm create --name MyVm --resource-group MyResourceGroup --image UbuntuLTS'']
   \<and> length ''        az vm create --name MyVm --resource-group MyResourceGroup --image UbuntuLTS''
     = 83"
  by code_simp


section \<open>The indent inference on a first line that mentions examples\<close>

text \<open>
  Claim C4. The scan looks for a line that, stripped,
      starts with \<^verbatim>\<open>examples\<close>, but the
  branch that follows asks whether the chosen line contains \<^verbatim>\<open>examples\<close> anywhere. In
  the block below no line starts with \<^verbatim>\<open>examples\<close> and the first line is indented by
  four spaces, yet the inner indent returned is the four spaces of the second line, not
  six: the first line mentions the word in its summary. (The lemmas \<open>indent_key_found\<close>
  and \<open>indent_key_not_found\<close> give the result in general.)
\<close>

theorem indent_first_line_mentions_examples:
  "\<not> examples_line (''    short-summary: Show usage examples.'' @ [NL])
   \<and> \<not> examples_line (''    type: command'' @ [NL])
   \<and> leading_spaces (''    short-summary: Show usage examples.'' @ [NL]) = ''    ''
   \<and> calculate_example_yaml_indent
        [''    short-summary: Show usage examples.'' @ [NL], ''    type: command'' @ [NL]]
       = Inr (''    '', ''    '')"
  by (simp add: startswith_def str_strip_def py_isspace_def calculate_example_yaml_indent_def
      indent_width_def str_in_def)

section \<open>The parameter names of an example\<close>

lemma startswith_strip_flag:
  assumes "startswith p ''--''"
  shows "startswith (str_strip p) ''--''"
proof -
  from assms obtain rest where p: "p = ''--'' @ rest"
    by (auto simp: startswith_def prefix_def)
  have d: "dropWhile py_isspace p = p"
    by (simp add: p py_isspace_def)
  have "rev p = rev rest @ ''--''" by (simp add: p)
  then have "\<exists>zs. dropWhile py_isspace (rev p) = zs @ ''--''"
    by (simp add: dropWhile_append py_isspace_def)
  then obtain zs where "dropWhile py_isspace (rev p) = zs @ ''--''" ..
  then have "str_strip p = ''--'' @ rev zs"
    by (simp add: str_strip_def d)
  then show ?thesis by (simp add: startswith_def)
qed

lemma parameter_names_eq:
  assumes "str_find txt cmd = Some i"
  shows "parameter_names cmd txt =
     (case shlex_split (drop (i + length cmd) txt) of
        Inl e \<Rightarrow> Inl e
      | Inr tokens \<Rightarrow> Inr (sort (map str_strip (filter (\<lambda>p. startswith p ''--'') tokens))))"
proof -
  from str_find_Some [OF assms] have "prefix cmd (drop i txt)" by simp
  then have j: "str_find (drop i txt) cmd = Some 0" by (rule str_find_prefix)
  show ?thesis
    by (simp add: parameter_names_def str_index_def assms j add.commute)
qed

text \<open>
  Claim C5, amended. When the command occurs in the text, first at index \<open>i\<close>, and
  \<^verbatim>\<open>shlex.split\<close> splits what follows that occurrence into \<open>tokens\<close>, the parameter names
  are returned; they are sorted, each starts with \<^verbatim>\<open>--\<close>,
      and as a multiset they are the
  tokens that start with \<^verbatim>\<open>--\<close>,
      each stripped: a flag that occurs twice is kept twice.
\<close>

theorem parameter_names_sorted_flags:
  assumes "i \<le> length txt" and "prefix cmd (drop i txt)"
    and "\<forall>j < i. \<not> prefix cmd (drop j txt)"
    and "shlex_split (drop (i + length cmd) txt) = Inr tokens"
  shows "\<exists>names. parameter_names cmd txt = Inr names
     \<and> sorted names
     \<and> mset names = mset (map str_strip (filter (\<lambda>p. startswith p ''--'') tokens))
     \<and> (\<forall>n \<in> set names. startswith n ''--'')"
proof -
  let ?names = "sort (map str_strip (filter (\<lambda>p. startswith p ''--'') tokens))"
  have "str_find txt cmd = Some i"
    by (rule str_find_first [OF assms(1-3)])
  then have "parameter_names cmd txt = Inr ?names"
    by (simp add: parameter_names_eq assms(4))
  moreover have "sorted ?names" by simp
  moreover have "mset ?names
      = mset (map str_strip (filter (\<lambda>p. startswith p ''--'') tokens))"
    by simp
  moreover have "\<forall>n \<in> set ?names. startswith n ''--''"
    by (auto simp: startswith_strip_flag)
  ultimately show ?thesis by blast
qed

theorem parameter_names_sorted_flags_witness:
  "(3::nat) \<le> length ''az vm update --name MyVm --set a=1 --set b=2''
   \<and> prefix ''vm update'' (drop 3 ''az vm update --name MyVm --set a=1 --set b=2'')
   \<and> \<not> prefix ''vm update'' (drop 0 ''az vm update --name MyVm --set a=1 --set b=2'')
   \<and> \<not> prefix ''vm update'' (drop 1 ''az vm update --name MyVm --set a=1 --set b=2'')
   \<and> \<not> prefix ''vm update'' (drop 2 ''az vm update --name MyVm --set a=1 --set b=2'')
   \<and> shlex_split (drop (3 + length ''vm update'') ''az vm update --name MyVm --set a=1 --set b=2'')
       = Inr [''--name'', ''MyVm'', ''--set'', ''a=1'', ''--set'', ''b=2'']
   \<and> (\<exists>names. parameter_names ''vm update'' ''az vm update --name MyVm --set a=1 --set b=2''
         = Inr names
       \<and> sorted names
       \<and> mset names = mset (map str_strip (filter (\<lambda>p. startswith p ''--'')
           [''--name'', ''MyVm'', ''--set'', ''a=1'', ''--set'', ''b=2'']))
       \<and> (\<forall>n \<in> set names. startswith n ''--''))"
proof -
  let ?txt = "''az vm update --name MyVm --set a=1 --set b=2''"
  have a: "(3::nat) \<le> length ?txt" by simp
  have b: "prefix ''vm update'' (drop 3 ?txt)" by code_simp
  have c: "\<forall>j < 3. \<not> prefix ''vm update'' (drop j ?txt)"
    by (simp add: less_Suc_eq numeral_3_eq_3)
  have d: "shlex_split (drop (3 + length ''vm update'') ?txt)
       = Inr [''--name'', ''MyVm'', ''--set'', ''a=1'', ''--set'', ''b=2'']"
    by code_simp
  have e: "\<not> prefix ''vm update'' (drop 0 ?txt) \<and> \<not> prefix ''vm update'' (drop 1 ?txt)
      \<and> \<not> prefix ''vm update'' (drop 2 ?txt)"
    by simp
  from parameter_names_sorted_flags [OF a b c d] a b d e show ?thesis by blast
qed

text \<open>
  Claim C5 as stated asks for unique flag tokens. The code sorts the flag tokens and
  removes none: an invocation that repeats \<^verbatim>\<open>--set\<close> has it twice among its parameter
  names.
\<close>

theorem parameter_names_repeated_flag:
  "parameter_names ''vm update'' ''az vm update --name MyVm --set a=1 --set b=2''
     = Inr [''--name'', ''--set'', ''--set'']
   \<and> \<not> distinct [''--name'', ''--set'', ''--set'']"
  by code_simp


section \<open>The continuation lines of a wrapped invocation\<close>

lemma split_at_flags_nonempty: "split_at_flags ps \<noteq> []"
  by (induction ps) (auto split: list.splits)






section \<open>An example without the command aborts the run\<close>

lemma parameter_names_missing:
  "\<not> sublist cmd txt \<Longrightarrow> parameter_names cmd txt = Inl SubstringNotFound"
  by (simp add: parameter_names_def str_index_missing)

lemma format_examples_loop_raises:
  "ex \<in> set examples \<Longrightarrow> parameter_names cmd (ex_text ex) = Inl e
    \<Longrightarrow> \<exists>e'. format_examples_loop cmd examples formatted = Inl e'"
proof (induction examples arbitrary: formatted)
  case Nil
  then show ?case by simp
next
  case (Cons x xs)
  show ?case
  proof (cases "parameter_names cmd (ex_text x)")
    case (Inl a)
    then show ?thesis by simp
  next
    case (Inr names)
    with Cons.prems have "ex \<in> set xs" by auto
    from Cons.IH [OF this Cons.prems(2)] Inr show ?thesis by simp
  qed
qed

lemma format_examples_raises:
  "ex \<in> set examples \<Longrightarrow> \<not> sublist cmd (ex_text ex)
    \<Longrightarrow> \<exists>e. format_examples cmd examples = Inl e"
  unfolding format_examples_def
  by (rule format_examples_loop_raises [OF _ parameter_names_missing])

lemma merge_examples_generated_raises:
  assumes "ex \<in> set aladdin" and "\<not> sublist cmd (ex_text ex)"
  shows "\<exists>e. merge_examples yaml cmd raw (Some aladdin) buffer = Inl e"
proof -
  from format_examples_raises [OF assms] obtain e where "format_examples cmd aladdin = Inl e" ..
  then show ?thesis
    by (simp add: merge_examples_def split: sum.splits)
qed

lemma merge_examples_existing_raises:
  assumes "yaml raw = Inr (Some cli)" and "ex \<in> set cli" and "\<not> sublist cmd (ex_text ex)"
  shows "\<exists>e. merge_examples yaml cmd raw (Some aladdin) buffer = Inl e"
proof -
  from format_examples_raises [OF assms(2,3)] obtain e where "format_examples cmd cli = Inl e" ..
  with assms(1) show ?thesis
    by (simp add: merge_examples_def)
qed

lemma merge_loop_block_raises:
  assumes "startswith line block_start"
    and "re_search_helps line = Some g"
    and "read_body (fst (readline f1)) (snd (readline f1)) [] = Some (body, closing, f2)"
    and "helps (str_strip g) = Some aladdin"
    and "merge_examples yaml (str_strip g) body aladdin (buffer @ [line] @ body) = Inl e"
  shows "merge_loop yaml helps (line # f1) buffer = Some (Inl e)"
  using assms by (subst merge_loop.simps) simp

text \<open>
  Claim C7. When the text of an example does not contain the command, the extraction of
  its parameter names raises the \<^verbatim>\<open>ValueError\<close> of \<^verbatim>\<open>str.index\<close> and returns no
  names. The exception is caught nowhere: \<open>format_examples\<close> raises for every list that
  holds such an example, \<open>merge_examples\<close> raises when the example is among the
  generated ones, or among the block's own ones while generated ones exist, and the
  pass over the file ends with an exception, writing nothing, when it reaches a closed
  block of that command whose generated examples hold such an example.
\<close>

theorem malformed_example_aborts:
  assumes "ex \<in> set examples" and "\<not> sublist cmd (ex_text ex)"
  shows "parameter_names cmd (ex_text ex) = Inl SubstringNotFound
    \<and> (\<exists>e. format_examples cmd examples = Inl e)
    \<and> (\<exists>e. merge_examples yaml cmd raw (Some examples) buffer = Inl e)
    \<and> (yaml raw = Inr (Some examples)
        \<longrightarrow> (\<exists>e. merge_examples yaml cmd raw (Some aladdin) buffer = Inl e))
    \<and> (startswith line block_start \<and> re_search_helps line = Some g \<and> str_strip g
        = cmd
          \<and> read_body (fst (readline f1)) (snd (readline f1)) [] = Some (body, closing, f2)
          \<and> helps cmd = Some (Some examples)
        \<longrightarrow> (\<exists>e. merge_loop yaml helps (line # f1) buffer = Some (Inl e)))"
proof (intro conjI impI)
  show "parameter_names cmd (ex_text ex) = Inl SubstringNotFound"
    by (rule parameter_names_missing [OF assms(2)])
  show "\<exists>e. format_examples cmd examples = Inl e"
    by (rule format_examples_raises [OF assms])
  show "\<exists>e. merge_examples yaml cmd raw (Some examples) buffer = Inl e"
    by (rule merge_examples_generated_raises [OF assms])
  show "\<exists>e. merge_examples yaml cmd raw (Some aladdin) buffer = Inl e"
    if "yaml raw = Inr (Some examples)"
    using that assms by (rule merge_examples_existing_raises [where yaml = yaml and raw = raw])
  show "\<exists>e. merge_loop yaml helps (line # f1) buffer = Some (Inl e)"
    if h: "startswith line block_start \<and> re_search_helps line = Some g \<and> str_strip g = cmd
          \<and> read_body (fst (readline f1)) (snd (readline f1)) [] = Some (body, closing, f2)
          \<and> helps cmd = Some (Some examples)"
  proof -
    from merge_examples_generated_raises [OF assms]
    obtain e where "merge_examples yaml cmd body (Some examples) (buffer @ [line] @ body) = Inl e"
      by blast
    with h have "merge_loop yaml helps (line # f1) buffer = Some (Inl e)"
      by (intro merge_loop_block_raises [where g = g and body = body]) auto
    then show ?thesis ..
  qed
qed

theorem malformed_example_aborts_witness:
  "\<lparr>ex_name = ''List'', ex_text = ''az vm list'', ex_crafted = None\<rparr>
      \<in> set [\<lparr>ex_name = ''List'', ex_text = ''az vm list'', ex_crafted = None\<rparr>]
    \<and> \<not> sublist ''vm create''
          (ex_text \<lparr>ex_name = ''List'', ex_text = ''az vm list'', ex_crafted = None\<rparr>)
    \<and> parameter_names ''vm create'' ''az vm list'' = Inl SubstringNotFound
    \<and> (\<exists>e. merge_loop (\<lambda>raw. Inr None)
          [''vm create'' \<mapsto> Some [\<lparr>ex_name = ''List'', ex_text = ''az vm list'',
              ex_crafted = None\<rparr>]]
          [''helps['' @ [SQ] @ ''vm create'' @ [SQ] @ ''] = '' @ [DQ, DQ, DQ, NL],
           ''type: command'' @ [NL], [DQ, DQ, DQ, NL]] [] = Some (Inl e))"
proof -
  let ?ex = "\<lparr>ex_name = ''List'', ex_text = ''az vm list'', ex_crafted = None\<rparr>"
  let ?line = "''helps['' @ [SQ] @ ''vm create'' @ [SQ] @ ''] = '' @ [DQ, DQ, DQ, NL]"
  have a: "?ex \<in> set [?ex]" by simp
  have b: "\<not> sublist ''vm create'' (ex_text ?ex)"
    by (simp add: sublist_Cons_right)
  have c: "startswith ?line block_start \<and> re_search_helps ?line = Some ''vm create''
      \<and> str_strip ''vm create'' = ''vm create''
      \<and> read_body (fst (readline [''type: command'' @ [NL], [DQ, DQ, DQ, NL]]))
           (snd (readline [''type: command'' @ [NL], [DQ, DQ, DQ, NL]])) []
         = Some ([''type: command'' @ [NL]], [DQ, DQ, DQ, NL], [])
      \<and> [''vm create'' \<mapsto> Some [?ex]] ''vm create'' = Some (Some [?ex])"
    by (simp add: startswith_def block_start_def group_close_def str_strip_def py_isspace_def
        readline_def read_body.simps endswith_def block_close_def)
  from malformed_example_aborts [OF a b, where yaml = "\<lambda>raw. Inr None"
      and line = ?line and g = "''vm create''" and helps = "[''vm create'' \<mapsto> Some [?ex]]"
      and ?f1.0 = "[''type: command'' @ [NL], [DQ, DQ, DQ, NL]]"
      and body = "[''type: command'' @ [NL]]" and closing = "[DQ, DQ, DQ, NL]" and ?f2.0 = "[]"
      and buffer = "[]"] a b c
  show ?thesis by simp
qed

section \<open>What the pass over the file writes\<close>



section \<open>When the pass over the file ends\<close>

text \<open>
  Claim C9,
      amended. The closing line of a block is a line that ends with \<^verbatim>\<open>"""\<close> and a
  newline. When every line that opens a block is followed by such a line, \<open>merge\<close>
  ends: it returns the text to write, or raises. The inner loop never ends when neither
  the line it holds nor any line left in the file is a closing line, since
  \<^verbatim>\<open>readline\<close> returns the empty string at the end of the file; so \<open>merge\<close> never ends on a
  file whose last block has no closing line, the part before that block having been
  processed without an exception.
\<close>

theorem merge_ends_when_blocks_closed:
  "(blocks_closed (file_lines content) \<longrightarrow> (\<exists>r. merge yaml helps content
      = Some r))
   \<and> (\<not> closing_line l \<and> (\<forall>x \<in> set f. \<not> closing_line x) \<longrightarrow> read_body l f body = None)
   \<and> (file_lines content = pre @ line # f1
        \<and> merge_loop yaml helps pre [] = Some (Inr b)
        \<and> startswith line block_start \<and> re_search_helps line \<noteq> None
        \<and> (\<forall>x \<in> set f1. \<not> closing_line x)
       \<longrightarrow> merge yaml helps content = None)"
proof (intro conjI impI)
  assume "blocks_closed (file_lines content)"
  then have "\<exists>r. merge_loop yaml helps (file_lines content) [] = Some r"
    by (intro merge_loop_terminates) (simp only: blocks_closed_iff)
  then show "\<exists>r. merge yaml helps content = Some r"
    by (auto simp: merge_def)
next
  assume "\<not> closing_line l \<and> (\<forall>x \<in> set f. \<not> closing_line x)"
  then show "read_body l f body = None"
    by (intro read_body_never_closes) simp_all
next
  assume h: "file_lines content = pre @ line # f1
        \<and> merge_loop yaml helps pre [] = Some (Inr b)
        \<and> startswith line block_start \<and> re_search_helps line \<noteq> None
        \<and> (\<forall>x \<in> set f1. \<not> closing_line x)"
  then obtain g where g: "re_search_helps line = Some g" by auto
  from h have "merge_loop yaml helps (pre @ line # f1) [] = merge_loop yaml helps (line # f1) b"
    by (intro merge_loop_append) simp
  also from h g have "\<dots> = None"
    by (intro merge_loop_unclosed [where g = g]) simp_all
  finally show "merge yaml helps content = None"
    using h by (simp add: merge_def)
qed

theorem merge_ends_when_blocks_closed_witness:
  "blocks_closed (file_lines (''helps['' @ [SQ] @ ''vm create'' @ [SQ] @ ''] = '' @ [DQ, DQ, DQ,
      NL] @ ''type: command'' @ [NL, DQ, DQ, DQ, NL]))
   \<and> (\<exists>r. merge (\<lambda>raw. Inr None) Map.empty (''helps['' @ [SQ] @ ''vm create''
       @ [SQ] @ ''] = '' @ [DQ, DQ, DQ, NL] @ ''type: command'' @ [NL, DQ, DQ, DQ, NL]) = Some r)
   \<and> \<not> closing_line []
   \<and> read_body [] [] [''type: command'' @ [NL]] = None
   \<and> file_lines (''helps['' @ [SQ] @ ''vm create'' @ [SQ] @ ''] = '' @ [DQ, DQ, DQ, NL]
       @ ''type: command'' @ [NL])
       = [] @ (''helps['' @ [SQ] @ ''vm create'' @ [SQ] @ ''] = '' @ [DQ, DQ, DQ,
           NL]) # [''type: command'' @ [NL]]
   \<and> merge_loop (\<lambda>raw. Inr None) Map.empty [] [] = Some (Inr [])
   \<and> startswith (''helps['' @ [SQ] @ ''vm create'' @ [SQ] @ ''] = '' @ [DQ, DQ, DQ,
       NL]) block_start
   \<and> re_search_helps (''helps['' @ [SQ] @ ''vm create'' @ [SQ] @ ''] = '' @ [DQ, DQ, DQ, NL])
       = Some ''vm create''
   \<and> \<not> closing_line (''type: command'' @ [NL])
   \<and> merge (\<lambda>raw. Inr None) Map.empty (''helps['' @ [SQ] @ ''vm create'' @ [SQ]
       @ ''] = '' @ [DQ, DQ, DQ, NL] @ ''type: command'' @ [NL]) = None"
proof -
  let ?start = "''helps['' @ [SQ] @ ''vm create'' @ [SQ] @ ''] = '' @ [DQ, DQ, DQ, NL]"
  let ?c1 = "''helps['' @ [SQ] @ ''vm create'' @ [SQ] @ ''] = '' @ [DQ, DQ, DQ, NL]
      @ ''type: command'' @ [NL, DQ, DQ, DQ, NL]"
  let ?c2 = "''helps['' @ [SQ] @ ''vm create'' @ [SQ] @ ''] = '' @ [DQ, DQ, DQ, NL]
      @ ''type: command'' @ [NL]"
  let ?yaml = "\<lambda>raw :: string list. Inr None :: py_error + example list option"
  let ?helps = "Map.empty :: string \<rightharpoonup> example list option"
  note ev = startswith_def endswith_def block_start_def block_close_def group_close_def
  have a: "blocks_closed (file_lines ?c1)" by (simp add: ev)
  have b: "\<not> closing_line []" by (simp add: ev)
  have c: "file_lines ?c2 = [] @ ?start # [''type: command'' @ [NL]]" by simp
  have d: "merge_loop ?yaml ?helps [] [] = Some (Inr [])" by (rule merge_loop_Nil)
  have e: "startswith ?start block_start" by (simp add: ev)
  have f: "re_search_helps ?start = Some ''vm create''" by (simp add: ev)
  have g: "\<not> closing_line (''type: command'' @ [NL])" by (simp add: ev)
  note t = merge_ends_when_blocks_closed [where yaml = ?yaml and helps = ?helps]
  from t [of ?c1] a have 1: "\<exists>r. merge ?yaml ?helps ?c1 = Some r" by blast
  from t [of _ "[]" "[]" "[''type: command'' @ [NL]]"] b
  have 2: "read_body [] [] [''type: command'' @ [NL]] = None" by simp
  from t [of ?c2 _ _ _ "[]" ?start "[''type: command'' @ [NL]]" "[]"] c d e f g
  have 3: "merge ?yaml ?helps ?c2 = None" by simp
  from a b c d e f g 1 2 3 show ?thesis by blast
qed

text \<open>
  Claim C9 as stated takes a line that ends in \<^verbatim>\<open>"""\<close> for the closing line. The code
  asks for \<^verbatim>\<open>"""\<close> and a newline: in the file below,
      which does not end with a newline,
  the line that opens the block is followed by the line \<^verbatim>\<open>"""\<close>,
      and \<open>merge\<close> never
  ends.
\<close>

theorem closing_line_without_newline_never_ends:
  "file_lines (''helps['' @ [SQ] @ ''vm create'' @ [SQ] @ ''] = '' @ [DQ, DQ, DQ, NL]
      @ ''type: command'' @ [NL, DQ, DQ, DQ])
     = [''helps['' @ [SQ] @ ''vm create'' @ [SQ] @ ''] = '' @ [DQ, DQ, DQ, NL], ''type: command''
         @ [NL], [DQ, DQ, DQ]]
   \<and> startswith (''helps['' @ [SQ] @ ''vm create'' @ [SQ] @ ''] = '' @ [DQ, DQ, DQ,
       NL]) block_start
   \<and> re_search_helps (''helps['' @ [SQ] @ ''vm create'' @ [SQ] @ ''] = '' @ [DQ, DQ, DQ, NL])
       = Some ''vm create''
   \<and> endswith [DQ, DQ, DQ] [DQ, DQ, DQ]
   \<and> merge (\<lambda>raw. Inr None) Map.empty (''helps['' @ [SQ] @ ''vm create'' @ [SQ]
       @ ''] = '' @ [DQ, DQ, DQ, NL] @ ''type: command'' @ [NL, DQ, DQ, DQ]) = None"
proof -
  let ?start = "''helps['' @ [SQ] @ ''vm create'' @ [SQ] @ ''] = '' @ [DQ, DQ, DQ, NL]"
  let ?f1 = "[''type: command'' @ [NL], [DQ, DQ, DQ]]"
  note ev = startswith_def endswith_def block_start_def block_close_def group_close_def
  have l: "file_lines (''helps['' @ [SQ] @ ''vm create'' @ [SQ] @ ''] = '' @ [DQ, DQ, DQ, NL]
      @ ''type: command'' @ [NL, DQ, DQ, DQ]) = ?start # ?f1" by simp
  have s: "startswith ?start block_start" by (simp add: ev)
  have r: "re_search_helps ?start = Some ''vm create''" by (simp add: ev)
  have n: "\<forall>x \<in> set ?f1. \<not> closing_line x" by (simp add: ev)
  have "merge_loop (\<lambda>raw. Inr None) Map.empty (?start # ?f1) [] = None"
    by (rule merge_loop_unclosed [OF s r n])
  then have "merge (\<lambda>raw. Inr None) Map.empty (''helps['' @ [SQ] @ ''vm create'' @ [SQ]
      @ ''] = '' @ [DQ, DQ, DQ, NL] @ ''type: command'' @ [NL, DQ, DQ, DQ]) = None"
    by (simp only: merge_def l option.map)
  with l s r show ?thesis by (simp add: endswith_def)
qed

section \<open>Where the indent inference raises\<close>

text \<open>
  Claim C10. \<open>calculate_example_yaml_indent\<close> raises \<^verbatim>\<open>IndexError\<close> on the empty list of
  lines (it indexes the first line). Otherwise the line that determines the outer
  indent is the first line that, stripped, starts with \<^verbatim>\<open>examples\<close>,
      or the first line
  of the block when there is none. The function raises \<^verbatim>\<open>AttributeError\<close> when a line it
  measures consists of spaces only (\<^verbatim>\<open>re.search\<close> finds no other character): the first
  line when no line starts with \<^verbatim>\<open>examples\<close>,
      or the line that follows the chosen one.
  It raises \<^verbatim>\<open>IndexError\<close> when the line starting with \<^verbatim>\<open>examples\<close> that the scan stops
  at is the last line of the block (it indexes the following line); the same happens
  when no line starts with \<^verbatim>\<open>examples\<close> and the first line,
      which contains that word, is
  the only line. In every other case, that is whenever the lines it reads exist and hold
  a character other than a space, it returns.
\<close>

theorem calculate_example_yaml_indent_partial:
  "calculate_example_yaml_indent [] = Inl IndexError
   \<and> (raw \<noteq> [] \<and> (\<forall>s \<in> set raw. \<not> examples_line s) \<and> only_spaces (hd raw)
        \<longrightarrow> calculate_example_yaml_indent raw = Inl AttributeError)
   \<and> (i < length raw \<and> examples_line (raw ! i) \<and> (\<forall>j < i. \<not> examples_line (raw ! j))
        \<longrightarrow> (Suc i = length raw \<longrightarrow> calculate_example_yaml_indent raw
            = Inl IndexError)
          \<and> (Suc i < length raw \<and> only_spaces (raw ! Suc i)
               \<longrightarrow> calculate_example_yaml_indent raw = Inl AttributeError)
          \<and> (Suc i < length raw \<and> \<not> only_spaces (raw ! Suc i)
               \<longrightarrow> (\<exists>r. calculate_example_yaml_indent raw = Inr r)))
   \<and> (raw \<noteq> [] \<and> (\<forall>s \<in> set raw. \<not> examples_line s) \<and> \<not> only_spaces (hd raw)
         \<and> \<not> sublist ''examples'' (hd raw)
        \<longrightarrow> (\<exists>r. calculate_example_yaml_indent raw = Inr r))
   \<and> (raw \<noteq> [] \<and> (\<forall>s \<in> set raw. \<not> examples_line s) \<and> \<not> only_spaces (hd raw)
         \<and> sublist ''examples'' (hd raw)
        \<longrightarrow> (length raw = 1 \<longrightarrow> calculate_example_yaml_indent raw
            = Inl IndexError)
          \<and> (1 < length raw \<and> only_spaces (raw ! 1)
               \<longrightarrow> calculate_example_yaml_indent raw = Inl AttributeError)
          \<and> (1 < length raw \<and> \<not> only_spaces (raw ! 1)
               \<longrightarrow> (\<exists>r. calculate_example_yaml_indent raw = Inr r)))"
proof (intro conjI impI)
  show "calculate_example_yaml_indent [] = Inl IndexError"
    by (simp add: calculate_example_yaml_indent_def)
next
  assume "raw \<noteq> [] \<and> (\<forall>s \<in> set raw. \<not> examples_line s) \<and> only_spaces (hd raw)"
  then show "calculate_example_yaml_indent raw = Inl AttributeError"
    by (simp add: indent_key_not_found)
next
  assume h: "i < length raw \<and> examples_line (raw ! i) \<and> (\<forall>j < i. \<not> examples_line (raw ! j))"
  then have eq: "calculate_example_yaml_indent raw =
     (if Suc i < length raw then
        (if only_spaces (raw ! Suc i) then Inl AttributeError
         else Inr (leading_spaces (raw ! i), leading_spaces (raw ! Suc i)))
      else Inl IndexError)"
    by (intro indent_key_found) auto
  { assume "Suc i = length raw"
    with eq show "calculate_example_yaml_indent raw = Inl IndexError" by simp }
  { assume "Suc i < length raw \<and> only_spaces (raw ! Suc i)"
    with eq show "calculate_example_yaml_indent raw = Inl AttributeError" by simp }
  { assume "Suc i < length raw \<and> \<not> only_spaces (raw ! Suc i)"
    with eq show "\<exists>r. calculate_example_yaml_indent raw = Inr r" by simp }
next
  assume "raw \<noteq> [] \<and> (\<forall>s \<in> set raw. \<not> examples_line s) \<and> \<not> only_spaces (hd raw)
         \<and> \<not> sublist ''examples'' (hd raw)"
  then show "\<exists>r. calculate_example_yaml_indent raw = Inr r"
    by (simp add: indent_key_not_found)
next
  assume h: "raw \<noteq> [] \<and> (\<forall>s \<in> set raw. \<not> examples_line s) \<and> \<not> only_spaces (hd raw)
         \<and> sublist ''examples'' (hd raw)"
  { assume "length raw = 1"
    with h show "calculate_example_yaml_indent raw = Inl IndexError"
      by (simp add: indent_key_not_found) }
  { assume "1 < length raw \<and> only_spaces (raw ! 1)"
    with h show "calculate_example_yaml_indent raw = Inl AttributeError"
      by (simp add: indent_key_not_found) }
  { assume "1 < length raw \<and> \<not> only_spaces (raw ! 1)"
    with h show "\<exists>r. calculate_example_yaml_indent raw = Inr r"
      by (simp add: indent_key_not_found) }
qed

theorem calculate_example_yaml_indent_partial_witness:
  "calculate_example_yaml_indent [''    ''] = Inl AttributeError
   \<and> calculate_example_yaml_indent [''type: command'' @ [NL], ''examples:'' @ [NL]]
       = Inl IndexError
   \<and> calculate_example_yaml_indent [''examples:'' @ [NL], ''  ''] = Inl AttributeError
   \<and> (\<exists>r. calculate_example_yaml_indent [''examples:'' @ [NL], ''  - name: x''
       @ [NL]] = Inr r)
   \<and> (\<exists>r. calculate_example_yaml_indent [''type: command'' @ [NL]] = Inr r)
   \<and> calculate_example_yaml_indent [''short-summary: examples'' @ [NL]] = Inl IndexError"
proof -
  note ev = startswith_def str_strip_def py_isspace_def sublist_Cons_right
  let ?r1 = "[''    '']"
  have "?r1 \<noteq> [] \<and> (\<forall>s \<in> set ?r1. \<not> examples_line s) \<and> only_spaces (hd ?r1)"
    by (simp add: ev)
  with calculate_example_yaml_indent_partial [of ?r1 0]
  have c1: "calculate_example_yaml_indent ?r1 = Inl AttributeError" by blast
  let ?r2 = "[''type: command'' @ [NL], ''examples:'' @ [NL]]"
  have "1 < length ?r2 \<and> examples_line (?r2 ! 1) \<and> (\<forall>j < 1. \<not> examples_line (?r2 ! j))
      \<and> Suc 1 = length ?r2"
    by (simp add: ev)
  with calculate_example_yaml_indent_partial [of ?r2 1]
  have c2: "calculate_example_yaml_indent ?r2 = Inl IndexError" by blast
  let ?r3 = "[''examples:'' @ [NL], ''  '']"
  have "0 < length ?r3 \<and> examples_line (?r3 ! 0) \<and> (\<forall>j < 0. \<not> examples_line (?r3 ! j))
      \<and> Suc 0 < length ?r3 \<and> only_spaces (?r3 ! Suc 0)"
    by (simp add: ev)
  with calculate_example_yaml_indent_partial [of ?r3 0]
  have c3: "calculate_example_yaml_indent ?r3 = Inl AttributeError" by blast
  let ?r4 = "[''examples:'' @ [NL], ''  - name: x'' @ [NL]]"
  have "0 < length ?r4 \<and> examples_line (?r4 ! 0) \<and> (\<forall>j < 0. \<not> examples_line (?r4 ! j))
      \<and> Suc 0 < length ?r4 \<and> \<not> only_spaces (?r4 ! Suc 0)"
    by (simp add: ev)
  with calculate_example_yaml_indent_partial [of ?r4 0]
  have c4: "\<exists>r. calculate_example_yaml_indent ?r4 = Inr r" by blast
  let ?r5 = "[''type: command'' @ [NL]]"
  have "?r5 \<noteq> [] \<and> (\<forall>s \<in> set ?r5. \<not> examples_line s) \<and> \<not> only_spaces (hd ?r5)
      \<and> \<not> sublist ''examples'' (hd ?r5)"
    by (simp add: ev)
  with calculate_example_yaml_indent_partial [of ?r5 0]
  have c5: "\<exists>r. calculate_example_yaml_indent ?r5 = Inr r" by blast
  let ?r6 = "[''short-summary: examples'' @ [NL]]"
  have "?r6 \<noteq> [] \<and> (\<forall>s \<in> set ?r6. \<not> examples_line s) \<and> \<not> only_spaces (hd ?r6)
      \<and> sublist ''examples'' (hd ?r6) \<and> length ?r6 = 1"
    by (simp add: ev)
  with calculate_example_yaml_indent_partial [of ?r6 0]
  have c6: "calculate_example_yaml_indent ?r6 = Inl IndexError" by blast
  from c1 c2 c3 c4 c5 c6 show ?thesis by blast
qed

end
